theory Spec2Isabelle
  imports Complex_Main
begin

section \<open>Python values\<close>

text \<open>
  The scripts of the repository handle JSON-like Python values: the value returned by
  \<^verbatim>\<open>SmartScraperGraph.run()\<close> and the per-node dictionaries of
  \<^verbatim>\<open>scraper.execution_info\<close>. A dictionary is an association list in
  insertion order (the order in which \<^verbatim>\<open>.items()\<close> yields it); its keys are
  strings. Strings are lists of 8-bit characters, read as the code points 0 to 255.

  A Python float is an IEEE 754 binary64 number. \<open>Finite m e\<close> stands for the number
  \<open>m * 2 ^ e\<close>; the two signed zeros, which compare equal in Python, are both
  \<open>Finite 0 0\<close>.
\<close>

datatype pyfloat = Finite int int | PosInf | NegInf | NaN

datatype pyval =
    PNone
  | PBool bool
  | PInt int
  | PFloat pyfloat
  | PStr string
  | PList "pyval list"
  | PDict "(string \<times> pyval) list"

datatype error = ValueError | OverflowError | ZeroDivisionError | AttributeError | TypeError

type_synonym node_info = "(string \<times> pyval) list"

definition valof :: "pyfloat \<Rightarrow> rat" where
  "valof x = (case x of
       Finite m e \<Rightarrow> (if 0 \<le> e then of_int m * 2 ^ nat e else of_int m / 2 ^ nat (- e))
     | _ \<Rightarrow> 0)"

section \<open>Rounding to binary64\<close>

text \<open>
  \<open>round64 p q\<close> is the binary64 number nearest to the fraction \<open>p / q\<close> (for
  \<open>0 < q\<close>), ties going to the even significand, as \<^verbatim>\<open>float()\<close> and the
  float arithmetic of Python round. The significand of a normal number has 53 bits; the
  exponent of the last place is at least \<open>-1074\<close> (subnormal numbers) and a result of
  \<open>2 ^ 1024\<close> or more is an infinity.
\<close>

fun bitlen :: "nat \<Rightarrow> nat" where
  "bitlen n = (if n = 0 then 0 else Suc (bitlen (n div 2)))"

declare bitlen.simps [simp del]

definition ulp_exponent :: "int \<Rightarrow> int \<Rightarrow> int" where
  "ulp_exponent p q =
     (let k = int (bitlen (nat p)) - int (bitlen (nat q))
      in max (- 1074) (if p * 2 ^ nat (- k) < q * 2 ^ nat k then k - 53 else k - 52))"

definition round_half_even :: "int \<Rightarrow> int \<Rightarrow> int" where
  "round_half_even n d =
     (let f = n div d; r = n mod d
      in if 2 * r < d then f else if d < 2 * r then f + 1
         else if even f then f else f + 1)"

definition round64 :: "int \<Rightarrow> int \<Rightarrow> pyfloat" where
  "round64 p q =
     (if p = 0 then Finite 0 0
      else let e = ulp_exponent \<bar>p\<bar> q;
               m = round_half_even (\<bar>p\<bar> * 2 ^ nat (- e)) (q * 2 ^ nat e);
               (m', e') = (if m = 2 ^ 53 then (2 ^ 52, e + 1) else (m, e))
           in if m' = 0 then Finite 0 0
              else if 971 < e' then (if 0 < p then PosInf else NegInf)
              else Finite (sgn p * m') e')"

text \<open>\<^verbatim>\<open>float(i)\<close> for an int: OverflowError when the int is too large.\<close>

definition float_of_int :: "int \<Rightarrow> error + pyfloat" where
  "float_of_int i = (case round64 i 1 of
       PosInf \<Rightarrow> Inl OverflowError
     | NegInf \<Rightarrow> Inl OverflowError
     | x \<Rightarrow> Inr x)"

section \<open>Float arithmetic, comparison and truth value\<close>

fun fadd :: "pyfloat \<Rightarrow> pyfloat \<Rightarrow> pyfloat" where
  "fadd (Finite m1 e1) (Finite m2 e2) =
     round64 ((m1 * 2 ^ nat (e1 - min e1 e2) + m2 * 2 ^ nat (e2 - min e1 e2)) * 2 ^ nat (min e1 e2))
       (2 ^ nat (- min e1 e2))"
| "fadd NaN _ = NaN"
| "fadd _ NaN = NaN"
| "fadd PosInf NegInf = NaN"
| "fadd NegInf PosInf = NaN"
| "fadd PosInf _ = PosInf"
| "fadd NegInf _ = NegInf"
| "fadd _ PosInf = PosInf"
| "fadd _ NegInf = NegInf"

fun fneg :: "pyfloat \<Rightarrow> pyfloat" where
  "fneg (Finite m e) = Finite (- m) e"
| "fneg PosInf = NegInf"
| "fneg NegInf = PosInf"
| "fneg NaN = NaN"

fun fmul :: "pyfloat \<Rightarrow> pyfloat \<Rightarrow> pyfloat" where
  "fmul (Finite m1 e1) (Finite m2 e2) =
     round64 (m1 * m2 * 2 ^ nat (e1 + e2)) (2 ^ nat (- (e1 + e2)))"
| "fmul NaN _ = NaN"
| "fmul _ NaN = NaN"
| "fmul (Finite m e) y = (if m = 0 then NaN else if 0 < m then y else fneg y)"
| "fmul x (Finite m e) = (if m = 0 then NaN else if 0 < m then x else fneg x)"
| "fmul PosInf y = y"
| "fmul NegInf y = fneg y"

text \<open>\<^verbatim>\<open>x / y\<close> on floats: ZeroDivisionError when the divisor is zero.\<close>

fun fdiv :: "pyfloat \<Rightarrow> pyfloat \<Rightarrow> error + pyfloat" where
  "fdiv (Finite m1 e1) (Finite m2 e2) =
     (if m2 = 0 then Inl ZeroDivisionError
      else Inr (round64 (sgn m2 * m1 * 2 ^ nat (e1 - e2)) (\<bar>m2\<bar> * 2 ^ nat (e2 - e1))))"
| "fdiv NaN (Finite m2 e2) = (if m2 = 0 then Inl ZeroDivisionError else Inr NaN)"
| "fdiv x (Finite m2 e2) =
     (if m2 = 0 then Inl ZeroDivisionError else Inr (if 0 < m2 then x else fneg x))"
| "fdiv NaN _ = Inr NaN"
| "fdiv _ NaN = Inr NaN"
| "fdiv (Finite m1 e1) _ = Inr (Finite 0 0)"
| "fdiv _ _ = Inr NaN"

text \<open>\<^verbatim>\<open>x > 0\<close> and the truth value \<^verbatim>\<open>bool(x)\<close> of a float.\<close>

fun float_gt0 :: "pyfloat \<Rightarrow> bool" where
  "float_gt0 (Finite m e) = (0 < m)"
| "float_gt0 PosInf = True"
| "float_gt0 _ = False"

fun float_truthy :: "pyfloat \<Rightarrow> bool" where
  "float_truthy (Finite m e) = (m \<noteq> 0)"
| "float_truthy _ = True"

text \<open>
  The builtin \<^verbatim>\<open>sum\<close> starts from the int 0 and adds the items from left to
  right; the int 0 it returns for no items is identified with the float zero. (CPython
  3.12 and later carry a correction term through a sum of floats, which can change the
  last bit of a sum of three or more items; nothing below depends on how a sum of more
  than two items rounds.)
\<close>

definition py_sum :: "pyfloat list \<Rightarrow> pyfloat" where
  "py_sum xs = foldl fadd (Finite 0 0) xs"

section \<open>Strings\<close>

text \<open>
  \<^verbatim>\<open>str.strip()\<close> removes the characters for which
  \<^verbatim>\<open>str.isspace()\<close> holds from both ends; among the code points below 256
  these are 9 to 13, 28 to 32, 133 and 160.
\<close>

definition is_space :: "char \<Rightarrow> bool" where
  "is_space c = (c \<in> set [CHR 0x09, CHR 0x0A, CHR 0x0B, CHR 0x0C, CHR 0x0D,
                           CHR 0x1C, CHR 0x1D, CHR 0x1E, CHR 0x1F, CHR 0x20,
                           CHR 0x85, CHR 0xA0])"

definition strip :: "string \<Rightarrow> string" where
  "strip s = rev (dropWhile is_space (rev (dropWhile is_space s)))"

text \<open>\<^verbatim>\<open>x.replace("$", "")\<close> removes every occurrence of the dollar sign.\<close>

fun replace_dollar :: "string \<Rightarrow> string" where
  "replace_dollar [] = []"
| "replace_dollar (c # cs) = (if c = CHR ''$'' then replace_dollar cs else c # replace_dollar cs)"

text \<open>
  \<^verbatim>\<open>str.lower()\<close>: below 256 the upper-case letters with a lower-case
  form are A to Z and the code points 192 to 222 except the multiplication sign 215; each
  maps to the letter 32 places up.
\<close>

definition upper_letters :: string where
  "upper_letters = ''ABCDEFGHIJKLMNOPQRSTUVWXYZ'' @
     [CHR 0xC0, CHR 0xC1, CHR 0xC2, CHR 0xC3, CHR 0xC4, CHR 0xC5, CHR 0xC6, CHR 0xC7,
      CHR 0xC8, CHR 0xC9, CHR 0xCA, CHR 0xCB, CHR 0xCC, CHR 0xCD, CHR 0xCE, CHR 0xCF,
      CHR 0xD0, CHR 0xD1, CHR 0xD2, CHR 0xD3, CHR 0xD4, CHR 0xD5, CHR 0xD6, CHR 0xD8,
      CHR 0xD9, CHR 0xDA, CHR 0xDB, CHR 0xDC, CHR 0xDD, CHR 0xDE]"

definition lower_letters :: string where
  "lower_letters = ''abcdefghijklmnopqrstuvwxyz'' @
     [CHR 0xE0, CHR 0xE1, CHR 0xE2, CHR 0xE3, CHR 0xE4, CHR 0xE5, CHR 0xE6, CHR 0xE7,
      CHR 0xE8, CHR 0xE9, CHR 0xEA, CHR 0xEB, CHR 0xEC, CHR 0xED, CHR 0xEE, CHR 0xEF,
      CHR 0xF0, CHR 0xF1, CHR 0xF2, CHR 0xF3, CHR 0xF4, CHR 0xF5, CHR 0xF6, CHR 0xF8,
      CHR 0xF9, CHR 0xFA, CHR 0xFB, CHR 0xFC, CHR 0xFD, CHR 0xFE]"

definition lower_char :: "char \<Rightarrow> char" where
  "lower_char c = (case map_of (zip upper_letters lower_letters) c of
       None \<Rightarrow> c
     | Some d \<Rightarrow> d)"

definition lower :: "string \<Rightarrow> string" where
  "lower s = map lower_char s"

text \<open>\<^verbatim>\<open>a in b\<close> on strings: \<open>a\<close> occurs in \<open>b\<close> as a contiguous run.\<close>

fun str_in :: "string \<Rightarrow> string \<Rightarrow> bool" where
  "str_in a [] = (a = [])"
| "str_in a (c # cs) = (take (length a) (c # cs) = a \<or> str_in a cs)"

section \<open>The builtin float() on strings\<close>

text \<open>
  \<^verbatim>\<open>float(s)\<close> accepts, between leading and trailing whitespace, an optional sign
  followed by \<^verbatim>\<open>inf\<close>, \<^verbatim>\<open>infinity\<close> or \<^verbatim>\<open>nan\<close> in any case, or by
  a decimal number: digits with an optional point and an optional exponent, where single
  underscores may separate digits. Anything else raises ValueError, here \<open>None\<close>.
  The decimal number is rounded to the nearest binary64 number. The whitespace that
  \<^verbatim>\<open>float\<close> skips is that of \<^verbatim>\<open>str.strip()\<close> without the four separators 28
  to 31.
\<close>

definition is_float_space :: "char \<Rightarrow> bool" where
  "is_float_space c = (c \<in> set [CHR 0x09, CHR 0x0A, CHR 0x0B, CHR 0x0C, CHR 0x0D, CHR 0x20,
                                 CHR 0x85, CHR 0xA0])"

definition float_strip :: "string \<Rightarrow> string" where
  "float_strip s = rev (dropWhile is_float_space (rev (dropWhile is_float_space s)))"

definition is_digit :: "char \<Rightarrow> bool" where
  "is_digit c = (c \<in> set ''0123456789'')"

definition digit_val :: "char \<Rightarrow> nat" where
  "digit_val c = of_char c - 48"

fun digitpart :: "string \<Rightarrow> bool" where
  "digitpart [] = False"
| "digitpart [c] = is_digit c"
| "digitpart (c # d # cs) =
     (is_digit c \<and> (if d = CHR ''_'' then digitpart cs else digitpart (d # cs)))"

definition digits_val :: "string \<Rightarrow> nat" where
  "digits_val s = foldl (\<lambda>a c. 10 * a + digit_val c) 0 (filter is_digit s)"

definition split_sign :: "string \<Rightarrow> bool \<times> string" where
  "split_sign s = (case s of
       [] \<Rightarrow> (False, [])
     | c # cs \<Rightarrow> (if c = CHR ''-'' then (True, cs) else if c = CHR ''+'' then (False, cs)
                 else (False, s)))"

definition is_exp_mark :: "char \<Rightarrow> bool" where
  "is_exp_mark c = (c = CHR ''e'' \<or> c = CHR ''E'')"

text \<open>
  \<open>decimal_literal s = Some (m, x)\<close> when \<open>s\<close> is an unsigned decimal number of value
  \<open>m * 10 ^ x\<close>.
\<close>

definition decimal_literal :: "string \<Rightarrow> (int \<times> int) option" where
  "decimal_literal s =
     (let mant = takeWhile (\<lambda>c. \<not> is_exp_mark c) s;
          rest = dropWhile (\<lambda>c. \<not> is_exp_mark c) s;
          ip = takeWhile (\<lambda>c. c \<noteq> CHR ''.'') mant;
          pt = dropWhile (\<lambda>c. c \<noteq> CHR ''.'') mant;
          fp = drop 1 pt;
          mant_ok = (if pt = [] then digitpart ip
                     else (ip = [] \<or> digitpart ip) \<and> (fp = [] \<or> digitpart fp)
                          \<and> \<not> (ip = [] \<and> fp = []));
          (neg, ds) = split_sign (drop 1 rest);
          exp_ok = (rest = [] \<or> digitpart ds);
          x = (if rest = [] then 0 else if neg then - int (digits_val ds) else int (digits_val ds))
      in if mant_ok \<and> exp_ok
         then Some (int (digits_val (ip @ fp)), x - int (length (filter is_digit fp)))
         else None)"

definition py_float :: "string \<Rightarrow> pyfloat option" where
  "py_float s =
     (let (neg, body) = split_sign (float_strip s); word = lower body
      in if word = ''inf'' \<or> word = ''infinity'' then Some (if neg then NegInf else PosInf)
         else if word = ''nan'' then Some NaN
         else case decimal_literal body of
             None \<Rightarrow> None
           | Some (m, x) \<Rightarrow>
               Some (round64 ((if neg then - m else m) * 10 ^ nat x) (10 ^ nat (- x))))"

section \<open>Cost coercion and total cost: autonation_consumer_reviews_live.py\<close>

text \<open>
  \<^verbatim>\<open>_to_float(x)\<close>: an int or a float goes through \<^verbatim>\<open>float(x)\<close> (a bool is
  an int in Python); a string loses its dollar signs and surrounding whitespace and is
  parsed, a ValueError giving 0.0; any other value gives 0.0.
\<close>

fun to_float :: "pyval \<Rightarrow> error + pyfloat" where
  "to_float (PBool b) = float_of_int (if b then 1 else 0)"
| "to_float (PInt i) = float_of_int i"
| "to_float (PFloat x) = Inr x"
| "to_float (PStr s) = (case py_float (strip (replace_dollar s)) of
       Some x \<Rightarrow> Inr x
     | None \<Rightarrow> Inr (Finite 0 0))"
| "to_float _ = Inr (Finite 0 0)"

definition is_cost_key :: "string \<Rightarrow> bool" where
  "is_cost_key k = str_in ''cost'' (lower k)"

text \<open>
  \<^verbatim>\<open>total_cost = sum(_to_float(v) for node_info in exec_info
  for k, v in node_info.items() if "cost" in k.lower())\<close>:
  \<^verbatim>\<open>sum\<close> draws the values one by one and adds each to its running total; an
  exception raised by \<^verbatim>\<open>_to_float\<close> ends the computation.
\<close>

fun sum_node_info :: "pyfloat \<Rightarrow> node_info \<Rightarrow> error + pyfloat" where
  "sum_node_info acc [] = Inr acc"
| "sum_node_info acc ((k, v) # kvs) =
     (if is_cost_key k
      then (case to_float v of
          Inl err \<Rightarrow> Inl err
        | Inr x \<Rightarrow> sum_node_info (fadd acc x) kvs)
      else sum_node_info acc kvs)"

fun sum_exec_info :: "pyfloat \<Rightarrow> node_info list \<Rightarrow> error + pyfloat" where
  "sum_exec_info acc [] = Inr acc"
| "sum_exec_info acc (node # nodes) =
     (case sum_node_info acc node of
          Inl err \<Rightarrow> Inl err
        | Inr acc' \<Rightarrow> sum_exec_info acc' nodes)"

definition total_cost :: "node_info list \<Rightarrow> error + pyfloat" where
  "total_cost exec_info = sum_exec_info (Finite 0 0) exec_info"

section \<open>Cost extraction: autonation_live_scrape_minimal.py\<close>

text \<open>
  \<^verbatim>\<open>str(i)\<close> of an int is its decimal numeral; CPython refuses to convert an int of
  more than 4300 digits with ValueError (\<open>None\<close>).
\<close>

definition digit_char :: "nat \<Rightarrow> char" where
  "digit_char d = ''0123456789'' ! d"

fun digits_of :: "nat \<Rightarrow> string" where
  "digits_of n = (if n < 10 then [digit_char n] else digits_of (n div 10) @ [digit_char (n mod 10)])"

declare digits_of.simps [simp del]

definition str_int :: "int \<Rightarrow> string option" where
  "str_int i =
     (if 4300 < length (digits_of (nat \<bar>i\<bar>)) then None
      else Some (if i < 0 then CHR ''-'' # digits_of (nat \<bar>i\<bar>) else digits_of (nat \<bar>i\<bar>)))"

text \<open>
  \<^verbatim>\<open>float(str(v).replace("$", "").strip())\<close>, with \<open>None\<close> for ValueError, by the
  type of \<open>v\<close>: \<^verbatim>\<open>str\<close> of a string is the string; of a float it is the shortest
  numeral that \<^verbatim>\<open>float\<close> reads back as the same float; of a bool or None it is the
  name of the constant; of a list or dict it starts with a bracket or brace, which
  \<^verbatim>\<open>float\<close> rejects.
\<close>

fun float_of_str :: "pyval \<Rightarrow> pyfloat option" where
  "float_of_str (PStr s) = py_float (strip (replace_dollar s))"
| "float_of_str (PInt i) = (case str_int i of
       None \<Rightarrow> None
     | Some s \<Rightarrow> py_float (strip (replace_dollar s)))"
| "float_of_str (PFloat x) = Some x"
| "float_of_str (PBool b) = py_float (strip (replace_dollar (if b then ''True'' else ''False'')))"
| "float_of_str PNone = py_float (strip (replace_dollar ''None''))"
| "float_of_str (PList xs) = None"
| "float_of_str (PDict d) = None"

text \<open>
  \<^verbatim>\<open>extract_node_cost(node)\<close> returns from inside its loop at the first key that
  contains \<^verbatim>\<open>cost\<close>; \<^verbatim>\<open>total_cost = sum(extract_node_cost(node) for node in
  exec_info_list)\<close>.
\<close>

fun extract_node_cost :: "node_info \<Rightarrow> pyfloat" where
  "extract_node_cost [] = Finite 0 0"
| "extract_node_cost ((k, v) # kvs) =
     (if is_cost_key k
      then (case float_of_str v of Some x \<Rightarrow> x | None \<Rightarrow> Finite 0 0)
      else extract_node_cost kvs)"

definition total_cost_minimal :: "node_info list \<Rightarrow> pyfloat" where
  "total_cost_minimal exec_info_list = py_sum (map extract_node_cost exec_info_list)"

section \<open>The total cost in the words of the specification\<close>

text \<open>
  The cost-bearing fields of a step-metadata mapping are the values under the keys that
  contain the token cost, case-insensitively. The specified total is the sum, over every
  mapping and every such field, of the coerced value of the field.
\<close>

definition cost_fields :: "node_info \<Rightarrow> pyval list" where
  "cost_fields node = map snd (filter (\<lambda>kv. is_cost_key (fst kv)) node)"

fun collect :: "(error + 'a) list \<Rightarrow> error + 'a list" where
  "collect [] = Inr []"
| "collect (Inl err # rs) = Inl err"
| "collect (Inr x # rs) = (case collect rs of Inl err \<Rightarrow> Inl err | Inr xs \<Rightarrow> Inr (x # xs))"

definition spec_total_cost :: "node_info list \<Rightarrow> error + pyfloat" where
  "spec_total_cost exec_info =
     (case collect (map to_float (concat (map cost_fields exec_info))) of
          Inl err \<Rightarrow> Inl err
        | Inr xs \<Rightarrow> Inr (py_sum xs))"

text \<open>What one mapping contributes in the minimal script: its first cost-bearing field.\<close>

definition first_cost_field :: "node_info \<Rightarrow> pyfloat" where
  "first_cost_field node = (case cost_fields node of
       [] \<Rightarrow> Finite 0 0
     | v # vs \<Rightarrow> (case float_of_str v of Some x \<Rightarrow> x | None \<Rightarrow> Finite 0 0))"

section \<open>The shape of the extraction result\<close>

definition dict_get :: "(string \<times> pyval) list \<Rightarrow> string \<Rightarrow> pyval \<Rightarrow> pyval" where
  "dict_get d k dflt = (case map_of d k of None \<Rightarrow> dflt | Some v \<Rightarrow> v)"

fun py_len :: "pyval \<Rightarrow> error + nat" where
  "py_len (PList xs) = Inr (length xs)"
| "py_len (PStr s) = Inr (length s)"
| "py_len (PDict d) = Inr (length d)"
| "py_len _ = Inl TypeError"

text \<open>
  \<^verbatim>\<open>v[:2]\<close>: lists and strings can be sliced, the other values raise (TypeError,
  or KeyError for a dict in CPython 3.12 and later; the model does not tell them apart).
\<close>

fun slice2 :: "pyval \<Rightarrow> error + pyval" where
  "slice2 (PList xs) = Inr (PList (take 2 xs))"
| "slice2 (PStr s) = Inr (PStr (take 2 s))"
| "slice2 _ = Inl TypeError"

fun is_list :: "pyval \<Rightarrow> bool" where
  "is_list (PList xs) = True"
| "is_list _ = False"

fun has_content :: "pyval \<Rightarrow> bool" where
  "has_content (PDict d) = (map_of d ''content'' \<noteq> None)"
| "has_content _ = False"

text \<open>
  autonation_consumer_reviews_live.py, lines 190 to 201: the preview of the first two
  records, or the message that the structure is unexpected.
\<close>

datatype preview = Preview pyval | Unexpected

fun preview_reviews :: "pyval \<Rightarrow> error + preview" where
  "preview_reviews (PList xs) = Inr (Preview (PList (take 2 xs)))"
| "preview_reviews (PDict d) =
     (if map_of d ''content'' \<noteq> None
      then (case slice2 (dict_get d ''content'' (PList [])) of
          Inl err \<Rightarrow> Inl err
        | Inr v \<Rightarrow> Inr (Preview v))
      else Inr Unexpected)"
| "preview_reviews _ = Inr Unexpected"

text \<open>Lines 240 to 246: \<^verbatim>\<open>review_list\<close> and \<^verbatim>\<open>n_reviews\<close>.\<close>

fun review_list :: "pyval \<Rightarrow> pyval" where
  "review_list (PList xs) = PList xs"
| "review_list (PDict d) = dict_get d ''content'' (PList [])"
| "review_list _ = PList []"

definition n_reviews :: "pyval \<Rightarrow> error + nat" where
  "n_reviews reviews_data = py_len (review_list reviews_data)"

text \<open>
  autonation_live_scrape_minimal.py, lines 87 and 88:
  \<^verbatim>\<open>cars = result if isinstance(result, list) else result.get("content", [])\<close>;
  only a dict has \<^verbatim>\<open>get\<close>.
\<close>

fun cars :: "pyval \<Rightarrow> error + pyval" where
  "cars (PList xs) = Inr (PList xs)"
| "cars (PDict d) = Inr (dict_get d ''content'' (PList []))"
| "cars _ = Inl AttributeError"

definition cars_in_run :: "pyval \<Rightarrow> error + nat" where
  "cars_in_run result = (case cars result of Inl err \<Rightarrow> Inl err | Inr c \<Rightarrow> py_len c)"

section \<open>Cost projection\<close>

text \<open>
  The format specifications of the report: \<^verbatim>\<open>{x:,.2f}\<close> rounds the exact value
  of the float to the given number of decimals, ties to even, and groups the integer
  digits in threes; \<^verbatim>\<open>{q:>9,}\<close> groups the digits of an int and pads to nine
  characters on the left.
\<close>

fun commas_rev :: "string \<Rightarrow> string" where
  "commas_rev (a # b # c # d # rest) = a # b # c # CHR '','' # commas_rev (d # rest)"
| "commas_rev ds = ds"

definition group3 :: "string \<Rightarrow> string" where
  "group3 ds = rev (commas_rev (rev ds))"

definition pad_zeros :: "nat \<Rightarrow> string \<Rightarrow> string" where
  "pad_zeros w ds = replicate (w - length ds) CHR ''0'' @ ds"

fun format_fixed :: "bool \<Rightarrow> nat \<Rightarrow> pyfloat \<Rightarrow> string" where
  "format_fixed grouped prec (Finite m e) =
     (if m < 0 then ''-'' else []) @
     (if grouped
      then group3 (digits_of (nat (round_half_even (\<bar>m\<bar> * 2 ^ nat e * 10 ^ prec) (2 ^ nat (- e))
                                    div 10 ^ prec)))
      else digits_of (nat (round_half_even (\<bar>m\<bar> * 2 ^ nat e * 10 ^ prec) (2 ^ nat (- e))
                           div 10 ^ prec))) @
     (if prec = 0 then []
      else CHR ''.'' #
           pad_zeros prec (digits_of (nat (round_half_even (\<bar>m\<bar> * 2 ^ nat e * 10 ^ prec)
                                             (2 ^ nat (- e)) mod 10 ^ prec))))"
| "format_fixed grouped prec PosInf = ''inf''"
| "format_fixed grouped prec NegInf = ''-inf''"
| "format_fixed grouped prec NaN = ''nan''"

definition format_quantity :: "int \<Rightarrow> string" where
  "format_quantity q =
     replicate (9 - length ((if q < 0 then ''-'' else []) @ group3 (digits_of (nat \<bar>q\<bar>)))) CHR '' '' @
     (if q < 0 then ''-'' else []) @ group3 (digits_of (nat \<bar>q\<bar>))"

text \<open>
  \<^verbatim>\<open>x / n\<close> and \<^verbatim>\<open>q * x\<close> for a float \<open>x\<close> and ints \<open>n\<close>, \<open>q\<close>: the int
  is converted to a float first.
\<close>

definition truediv :: "pyfloat \<Rightarrow> int \<Rightarrow> error + pyfloat" where
  "truediv x n = (case float_of_int n of Inl err \<Rightarrow> Inl err | Inr y \<Rightarrow> fdiv x y)"

definition int_times :: "int \<Rightarrow> pyfloat \<Rightarrow> error + pyfloat" where
  "int_times q x = (case float_of_int q of Inl err \<Rightarrow> Inl err | Inr y \<Rightarrow> Inr (fmul y x))"

definition PROJECTIONS :: "int list" where
  "PROJECTIONS = [100, 1000, 100000, 1000000]"

text \<open>
  The report of the projection: either the message that the cost cannot be projected, or
  the cost per record, the two formatted figures of the summary line, and for each
  hypothetical quantity the formatted quantity and the formatted projected cost.
\<close>

datatype projection =
    Unable
  | Projected pyfloat "string \<times> string" "(int \<times> string \<times> string) list"

fun projection_lines :: "pyfloat \<Rightarrow> int list \<Rightarrow> error + (int \<times> string \<times> string) list" where
  "projection_lines cost_per [] = Inr []"
| "projection_lines cost_per (quantity # qs) =
     (case int_times quantity cost_per of
          Inl err \<Rightarrow> Inl err
        | Inr projected_cost \<Rightarrow>
            (case projection_lines cost_per qs of
                 Inl err \<Rightarrow> Inl err
               | Inr ls \<Rightarrow>
                   Inr ((quantity, format_quantity quantity, format_fixed True 2 projected_cost) # ls)))"

definition project :: "pyfloat \<Rightarrow> pyfloat \<Rightarrow> error + projection" where
  "project tot cost_per =
     (case projection_lines cost_per PROJECTIONS of
          Inl err \<Rightarrow> Inl err
        | Inr ls \<Rightarrow>
            Inr (Projected cost_per (format_fixed False 4 tot, format_fixed False 6 cost_per) ls))"

text \<open>
  autonation_consumer_reviews_live.py, lines 253 to 266:
  \<^verbatim>\<open>if n_reviews > 0 and total_cost > 0: cost_per_review = total_cost / n_reviews\<close>.
\<close>

definition cost_per_review :: "nat \<Rightarrow> pyfloat \<Rightarrow> error + projection" where
  "cost_per_review n tot =
     (if 0 < n \<and> float_gt0 tot
      then (case truediv tot (int n) of
          Inl err \<Rightarrow> Inl err
        | Inr c \<Rightarrow> project tot c)
      else Inr Unable)"

text \<open>
  autonation_live_scrape_minimal.py, lines 91 to 99:
  \<^verbatim>\<open>if cars_in_run and total_cost: cost_per_car = total_cost / cars_in_run\<close>.
  Its \<^verbatim>\<open>projection_sizes\<close> are the four quantities of \<^verbatim>\<open>PROJECTIONS\<close> and
  its report uses the same formats.
\<close>

definition cost_per_car :: "nat \<Rightarrow> pyfloat \<Rightarrow> error + projection" where
  "cost_per_car n tot =
     (if n \<noteq> 0 \<and> float_truthy tot
      then (case truediv tot (int n) of
          Inl err \<Rightarrow> Inl err
        | Inr c \<Rightarrow> project tot c)
      else Inr Unable)"

fun float_is_zero :: "pyfloat \<Rightarrow> bool" where
  "float_is_zero (Finite m e) = (m = 0)"
| "float_is_zero _ = False"

section \<open>The page materializer\<close>

text \<open>
  The browser is driven through the Playwright library. Each call of the library either
  returns or raises; the environment says which, says whether the i-th lookup of the
  load-more button finds it, and holds the markup that \<^verbatim>\<open>page.content()\<close> returns.
  A run leaves a trace of the calls it made. \<open>Stopped\<close> is the exit of the
  \<^verbatim>\<open>with sync_playwright() as p\<close> block, which stops the Playwright driver and with it
  every browser the driver launched; \<open>Called Close\<close> is the explicit
  \<^verbatim>\<open>browser.close()\<close>.
\<close>

datatype call =
    Start | Launch | NewContext | NewPage | Goto | WaitForSelector | Evaluate
  | QuerySelector nat | Click nat | WaitForTimeout nat | PressEnd nat | PressEndFinal
  | Content | MakeDirs | WriteFile | Close

datatype event = Called call | Printed string | Stopped

record env =
  raises :: "call \<Rightarrow> bool"
  load_more :: "nat \<Rightarrow> bool"
  html :: string

text \<open>A straight run of calls: the first one that raises ends it.\<close>

fun run_calls :: "env \<Rightarrow> call list \<Rightarrow> event list \<Rightarrow> call option \<times> event list" where
  "run_calls env [] tr = (None, tr)"
| "run_calls env (c # cs) tr =
     (if raises env c then (Some c, tr @ [Called c]) else run_calls env cs (tr @ [Called c]))"

text \<open>
  autonation_consumer_reviews_live.py, lines 72 to 83: the loop that clicks the load-more
  button until the lookup finds none. It may run forever.
\<close>

partial_function (option) load_more_loop ::
    "env \<Rightarrow> nat \<Rightarrow> event list \<Rightarrow> (call option \<times> event list) option" where
  "load_more_loop env i tr =
     (if raises env (QuerySelector i) then Some (Some (QuerySelector i), tr @ [Called (QuerySelector i)])
      else if \<not> load_more env i then Some (None, tr @ [Called (QuerySelector i)])
      else (case run_calls env [Click i, WaitForTimeout i, PressEnd i] (tr @ [Called (QuerySelector i)]) of
          (Some c, tr') \<Rightarrow> Some (Some c, tr')
        | (None, tr') \<Rightarrow> load_more_loop env (Suc i) tr'))"

text \<open>The body of the \<^verbatim>\<open>with\<close> block of \<^verbatim>\<open>render_full_page\<close>.\<close>

definition render_body :: "env \<Rightarrow> event list \<Rightarrow> ((call + string) \<times> event list) option" where
  "render_body env tr =
     (case run_calls env [Launch, NewPage, Goto] tr of
          (Some c, tr1) \<Rightarrow> Some (Inl c, tr1)
        | (None, tr1) \<Rightarrow>
            (case load_more_loop env 0 tr1 of
                 None \<Rightarrow> None
               | Some (Some c, tr2) \<Rightarrow> Some (Inl c, tr2)
               | Some (None, tr2) \<Rightarrow>
                   (case run_calls env [PressEndFinal, Content, MakeDirs, WriteFile, Close] tr2 of
                        (Some c, tr3) \<Rightarrow> Some (Inl c, tr3)
                      | (None, tr3) \<Rightarrow> Some (Inr (html env), tr3))))"

text \<open>
  \<^verbatim>\<open>render_full_page(url)\<close>: when entering the block raises, nothing was started;
  otherwise the block is left through its exit, with the value or the exception of the
  body.
\<close>

definition render_full_page :: "env \<Rightarrow> ((call + string) \<times> event list) option" where
  "render_full_page env =
     (if raises env Start then Some (Inl Start, [Called Start])
      else (case render_body env [Called Start] of
          None \<Rightarrow> None
        | Some (res, tr) \<Rightarrow> Some (res, tr @ [Stopped])))"

text \<open>
  autonation_live_scrape.py, \<^verbatim>\<open>fetch_rendered_html(url)\<close>: the wait for the car
  tiles sits in a \<^verbatim>\<open>try\<close> whose handler prints a warning and raises the exception
  again.
\<close>

definition fetch_body :: "env \<Rightarrow> event list \<Rightarrow> (call + string) \<times> event list" where
  "fetch_body env tr =
     (case run_calls env [Launch, NewContext, NewPage, Goto] tr of
          (Some c, tr1) \<Rightarrow> (Inl c, tr1)
        | (None, tr1) \<Rightarrow>
            (if raises env WaitForSelector
             then (Inl WaitForSelector,
                   tr1 @ [Called WaitForSelector, Printed ''Timeout waiting for car tiles.''])
             else (case run_calls env [Evaluate, Content, Close]
                          (tr1 @ [Called WaitForSelector, Printed ''Car tiles loaded.'']) of
                 (Some c, tr2) \<Rightarrow> (Inl c, tr2)
               | (None, tr2) \<Rightarrow> (Inr (html env), tr2))))"

definition fetch_rendered_html :: "env \<Rightarrow> (call + string) \<times> event list" where
  "fetch_rendered_html env =
     (if raises env Start then (Inl Start, [Called Start])
      else (case fetch_body env [Called Start] of (res, tr) \<Rightarrow> (res, tr @ [Stopped])))"

text \<open>The calls of the i-th round of the loop, and the lookups in a trace.\<close>

definition round_calls :: "nat \<Rightarrow> event list" where
  "round_calls i =
     [Called (QuerySelector i), Called (Click i), Called (WaitForTimeout i), Called (PressEnd i)]"

fun is_lookup :: "event \<Rightarrow> bool" where
  "is_lookup (Called (QuerySelector i)) = True"
| "is_lookup _ = False"

definition lookups :: "event list \<Rightarrow> nat" where
  "lookups tr = length (filter is_lookup tr)"

text \<open>
  Three environments: the second click on the load-more button raises; the wait for the
  car tiles raises; the button is found twice and then no more.
\<close>

definition click_fails :: env where
  "click_fails = \<lparr>raises = (\<lambda>c. c = Click 1), load_more = (\<lambda>i. True), html = ''<html></html>''\<rparr>"

definition wait_fails :: env where
  "wait_fails = \<lparr>raises = (\<lambda>c. c = WaitForSelector), load_more = (\<lambda>i. False), html = ''<html></html>''\<rparr>"

definition two_clicks :: env where
  "two_clicks = \<lparr>raises = (\<lambda>c. False), load_more = (\<lambda>i. i < 2), html = ''<html></html>''\<rparr>"

section \<open>Properties of the rounding\<close>

lemma bitlen_eval:
  "bitlen 0 = 0" "bitlen (Suc 0) = 1" "bitlen 1 = 1"
  "bitlen (numeral k) = Suc (bitlen (numeral k div 2))"
  by (simp_all add: bitlen.simps)

lemmas round64_eval = round64_def ulp_exponent_def round_half_even_def Let_def bitlen_eval

lemma bitlen_pos: "0 < n \<Longrightarrow> 0 < bitlen n"
  by (subst bitlen.simps) simp

lemma bitlen_bounds: "0 < n \<Longrightarrow> 2 ^ (bitlen n - 1) \<le> n \<and> n < 2 ^ bitlen n"
proof (induction n rule: bitlen.induct)
  case (1 n)
  show ?case
  proof (cases "n div 2 = 0")
    case True
    with "1.prems" have "n = 1" by presburger
    then show ?thesis by (simp add: bitlen_eval)
  next
    case False
    then have pos: "0 < n div 2" by simp
    from "1.prems" have n0: "n \<noteq> 0" by simp
    from "1.IH" [OF n0 pos]
    have lo: "2 ^ (bitlen (n div 2) - 1) \<le> n div 2" and hi: "n div 2 < 2 ^ bitlen (n div 2)"
      by simp_all
    have b: "bitlen n = Suc (bitlen (n div 2))"
      using n0 by (subst bitlen.simps) simp
    obtain c where c: "bitlen (n div 2) = Suc c"
      using bitlen_pos [OF pos] by (cases "bitlen (n div 2)") auto
    from lo c have "2 * 2 ^ c \<le> 2 * (n div 2)" by simp
    then have l: "2 ^ Suc c \<le> n" by simp
    from hi c have "n div 2 < 2 * 2 ^ c" by simp
    then have h: "n < 2 * (2 * 2 ^ c)" by presburger
    show ?thesis using l h by (simp add: b c)
  qed
qed


lemma bitlen_le: "n < 2 ^ j \<Longrightarrow> bitlen n \<le> j"
proof (cases "n = 0")
  case True
  then show ?thesis by (simp add: bitlen_eval)
next
  case False
  assume a: "n < 2 ^ j"
  from False have "2 ^ (bitlen n - 1) \<le> n" using bitlen_bounds [of n] by simp
  with a have "(2::nat) ^ (bitlen n - 1) < 2 ^ j" by linarith
  then have "bitlen n - 1 < j" by simp
  then show ?thesis by linarith
qed

lemma ulp_exponent_int:
  assumes "0 < p"
  shows "ulp_exponent p 1 = int (bitlen (nat p)) - 53"
proof -
  have pos: "0 < nat p" using assms by simp
  from bitlen_bounds [OF pos] have lo: "2 ^ (bitlen (nat p) - 1) \<le> nat p" by simp
  obtain c where c: "bitlen (nat p) = Suc c"
    using bitlen_pos [OF pos] by (cases "bitlen (nat p)") auto
  from lo c have "(2::nat) ^ c \<le> nat p" by simp
  then have "int (2 ^ c) \<le> int (nat p)" by (simp only: of_nat_le_iff)
  then have "(2::int) ^ c \<le> p" using assms by simp
  then show ?thesis
    by (simp add: ulp_exponent_def bitlen_eval c Let_def)
qed

lemma round_half_even_one: "round_half_even n 1 = n"
  by (simp add: round_half_even_def)

lemma round64_int_small:
  assumes "0 < p" "p < 2 ^ 53"
  shows "round64 p 1 = Finite (p * 2 ^ (53 - bitlen (nat p))) (int (bitlen (nat p)) - 53)"
proof -
  have pos: "0 < nat p" using assms by simp
  have "nat p < 2 ^ 53" using assms by (simp add: nat_less_iff)
  then have le: "bitlen (nat p) \<le> 53" by (rule bitlen_le)
  from bitlen_bounds [OF pos] have hi: "nat p < 2 ^ bitlen (nat p)" by simp
  then have "int (nat p) < int (2 ^ bitlen (nat p))" by (simp only: of_nat_less_iff)
  then have hi': "p < 2 ^ bitlen (nat p)" using assms by simp
  have e: "nat (53 - int (bitlen (nat p))) = 53 - bitlen (nat p)" using le by simp
  have e0: "nat (int (bitlen (nat p)) - 53) = 0" using le by simp
  have "p * 2 ^ (53 - bitlen (nat p)) < 2 ^ bitlen (nat p) * 2 ^ (53 - bitlen (nat p))"
    using hi' by simp
  also have "\<dots> = (2::int) ^ 53" using le by (simp flip: power_add)
  finally have lt: "p * 2 ^ (53 - bitlen (nat p)) < 2 ^ 53" .
  have nz: "p * 2 ^ (53 - bitlen (nat p)) \<noteq> 0" using assms by simp
  have ne: "p * 2 ^ (53 - bitlen (nat p)) \<noteq> 2 ^ 53" using lt by simp
  show ?thesis
    using assms le nz ne
    by (simp add: round64_def ulp_exponent_int e e0 round_half_even_one Let_def)
qed


lemma round_half_even_ge: "0 < d \<Longrightarrow> n div d \<le> round_half_even n d"
  by (simp add: round_half_even_def Let_def)

lemma round_half_even_pos:
  assumes "0 < d" "d \<le> n"
  shows "0 < round_half_even n d"
proof -
  have "0 < n div d" using assms by (simp add: pos_imp_zdiv_pos_iff)
  with round_half_even_ge [OF assms(1), of n] show ?thesis by linarith
qed

lemma round64_int_pos:
  assumes "0 < p"
  shows "round64 p 1 = PosInf \<or> (\<exists>m e. round64 p 1 = Finite m e \<and> 0 < m)"
    and "p < 2 ^ 1023 \<Longrightarrow> \<exists>m e. round64 p 1 = Finite m e \<and> 0 < m"
proof -
  define b where "b = bitlen (nat p)"
  define e where "e = int b - 53"
  define m where "m = round_half_even (p * 2 ^ nat (- e)) (2 ^ nat e)"
  have pos: "0 < nat p" using assms by simp
  from bitlen_bounds [OF pos] have "2 ^ (b - 1) \<le> nat p" by (simp add: b_def)
  then have "int (2 ^ (b - 1)) \<le> int (nat p)" by (simp only: of_nat_le_iff)
  then have lo: "2 ^ (b - 1) \<le> p" using assms by simp
  have bpos: "0 < b" using bitlen_pos [OF pos] by (simp add: b_def)
  have "(2::int) ^ nat e \<le> 2 ^ (b - 1)"
    by (rule power_increasing) (use bpos in \<open>simp_all add: e_def\<close>)
  also have "\<dots> \<le> p" by (rule lo)
  also have "p \<le> p * 2 ^ nat (- e)" using assms by (simp add: mult_le_cancel_left1)
  finally have "2 ^ nat e \<le> p * 2 ^ nat (- e)" .
  then have mpos: "0 < m"
    unfolding m_def by (intro round_half_even_pos) simp_all
  have ue: "ulp_exponent p 1 = e"
    using ulp_exponent_int [OF assms] by (simp add: e_def b_def)
  have r: "round64 p 1 =
      (if m = 2 ^ 53 then (if 971 < e + 1 then PosInf else Finite (2 ^ 52) (e + 1))
       else (if 971 < e then PosInf else Finite m e))"
    using assms mpos by (simp add: round64_def ue m_def Let_def)
  show "round64 p 1 = PosInf \<or> (\<exists>m e. round64 p 1 = Finite m e \<and> 0 < m)"
    using mpos by (auto simp: r)
  show "\<exists>m e. round64 p 1 = Finite m e \<and> 0 < m" if "p < 2 ^ 1023"
  proof -
    have "nat p < 2 ^ 1023" using that assms by (simp add: nat_less_iff)
    then have "b \<le> 1023" unfolding b_def by (rule bitlen_le)
    then have "e \<le> 970" by (simp add: e_def)
    then show ?thesis using mpos by (auto simp: r)
  qed
qed

lemma round64_neg: "round64 (- p) q = fneg (round64 p q)"
  by (simp add: round64_def Let_def split: prod.splits)

lemma valof_fneg: "valof (fneg x) = - valof x"
  by (cases x) (simp_all add: valof_def)

lemma round64_int_exact_pos:
  assumes "0 < p" "p \<le> 2 ^ 53"
  shows "\<exists>y. round64 p 1 = y \<and> y \<noteq> PosInf \<and> y \<noteq> NegInf \<and> valof y = of_int p"
proof (cases "p = 2 ^ 53")
  case True
  have "round64 (2 ^ 53) 1 = Finite (2 ^ 52) 1"
    by (simp add: round64_eval)
  then show ?thesis using True by (simp add: valof_def)
next
  case False
  with assms have lt: "p < 2 ^ 53" by simp
  have "nat p < 2 ^ 53" using assms lt by (simp add: nat_less_iff)
  then have le: "bitlen (nat p) \<le> 53" by (rule bitlen_le)
  have e: "nat (53 - int (bitlen (nat p))) = 53 - bitlen (nat p)" using le by simp
  have "valof (Finite (p * 2 ^ (53 - bitlen (nat p))) (int (bitlen (nat p)) - 53)) = of_int p"
    using le by (simp add: valof_def e)
  then show ?thesis
    using round64_int_small [OF assms(1) lt] by simp
qed

lemma float_of_int_exact:
  assumes "\<bar>i\<bar> \<le> 2 ^ 53"
  shows "\<exists>y. float_of_int i = Inr y \<and> valof y = of_int i"
proof -
  consider "i = 0" | "0 < i" | "i < 0" by linarith
  then show ?thesis
  proof cases
    case 1
    then show ?thesis by (simp add: float_of_int_def round64_def valof_def)
  next
    case 2
    with assms have "i \<le> 2 ^ 53" by simp
    from round64_int_exact_pos [OF 2 this] show ?thesis
      by (auto simp: float_of_int_def split: pyfloat.splits)
  next
    case 3
    then have p: "0 < - i" by simp
    from assms 3 have "- i \<le> 2 ^ 53" by simp
    from round64_int_exact_pos [OF p this]
    obtain y where y: "round64 (- i) 1 = y" "y \<noteq> PosInf" "y \<noteq> NegInf" "valof y = of_int (- i)"
      by blast
    have "round64 i 1 = fneg y" using round64_neg [of "- i" 1] y(1) by simp
    moreover have "valof (fneg y) = of_int i" using y(4) by (simp add: valof_fneg)
    moreover have "fneg y \<noteq> PosInf" "fneg y \<noteq> NegInf" using y(2,3) by (cases y; simp)+
    ultimately show ?thesis
      by (auto simp: float_of_int_def split: pyfloat.splits)
  qed
qed

section \<open>Properties of the string operations\<close>

lemma replace_dollar_filter: "replace_dollar s = filter (\<lambda>c. c \<noteq> CHR ''$'') s"
  by (induction s) simp_all

lemma replace_dollar_id: "CHR ''$'' \<notin> set s \<Longrightarrow> replace_dollar s = s"
  by (induction s) auto

lemma replace_dollar_append: "replace_dollar (s @ t) = replace_dollar s @ replace_dollar t"
  by (induction s) simp_all

lemma space_not_dollar: "is_space c \<Longrightarrow> c \<noteq> CHR ''$''"
  by (auto simp: is_space_def)

lemma strip_spaces:
  assumes "\<forall>c\<in>set ws1. is_space c" "\<forall>c\<in>set ws2. is_space c"
  shows "strip (ws1 @ t @ ws2) = strip t"
proof -
  have a: "dropWhile is_space (ws1 @ t @ ws2) = dropWhile is_space (t @ ws2)"
    using assms(1) by (simp add: dropWhile_append2)
  show ?thesis
  proof (cases "\<forall>c\<in>set t. is_space c")
    case True
    then have "dropWhile is_space (t @ ws2) = []"
      using assms(2) by auto
    moreover have "dropWhile is_space t = []"
      using True by auto
    ultimately show ?thesis by (simp only: strip_def a)
  next
    case False
    then have "dropWhile is_space (t @ ws2) = dropWhile is_space t @ ws2"
      by (auto simp: dropWhile_append1)
    moreover have "dropWhile is_space (rev ws2 @ rev (dropWhile is_space t)) =
        dropWhile is_space (rev (dropWhile is_space t))"
      by (rule dropWhile_append2) (use assms(2) in simp)
    ultimately show ?thesis by (simp add: strip_def a)
  qed
qed

lemma float_space_space: "is_float_space c \<Longrightarrow> is_space c"
  by (auto simp: is_float_space_def is_space_def)

lemma lower_char_other: "c \<notin> set upper_letters \<Longrightarrow> lower_char c = c"
proof -
  assume a: "c \<notin> set upper_letters"
  have "length upper_letters = length lower_letters"
    by (simp add: upper_letters_def lower_letters_def)
  then have "map_of (zip upper_letters lower_letters) c = None"
    using a by (simp add: map_of_zip_is_None)
  then show ?thesis by (simp add: lower_char_def)
qed

lemma space_not_upper: "is_space c \<Longrightarrow> c \<notin> set upper_letters"
  by (auto simp: is_space_def upper_letters_def)

lemma space_lower: "is_space c \<Longrightarrow> lower_char c = c"
  by (simp add: lower_char_other space_not_upper)

lemma space_not_token:
  "is_space c \<Longrightarrow> c \<notin> set ''infinityan'' \<and> \<not> is_digit c \<and> c \<notin> set ''_.eE+-''"
  by (auto simp: is_space_def is_digit_def)

lemma digitpart_chars: "digitpart s \<Longrightarrow> c \<in> set s \<Longrightarrow> is_digit c \<or> c = CHR ''_''"
  by (induction s rule: digitpart.induct) (auto split: if_splits)

lemma split_sign_chars:
  "split_sign s = (neg, t) \<Longrightarrow> c \<in> set s \<Longrightarrow> c \<in> set t \<or> c = CHR ''+'' \<or> c = CHR ''-''"
  by (cases s) (auto simp: split_sign_def split: if_splits)

lemma decimal_literal_chars:
  assumes "decimal_literal s = Some mx" "c \<in> set s"
  shows "is_digit c \<or> c \<in> set ''_.eE+-''"
proof -
  define mant where "mant = takeWhile (\<lambda>c. \<not> is_exp_mark c) s"
  define rest where "rest = dropWhile (\<lambda>c. \<not> is_exp_mark c) s"
  define ip where "ip = takeWhile (\<lambda>c. c \<noteq> CHR ''.'') mant"
  define pt where "pt = dropWhile (\<lambda>c. c \<noteq> CHR ''.'') mant"
  define fp where "fp = drop 1 pt"
  obtain neg ds where sg: "split_sign (drop 1 rest) = (neg, ds)"
    by (cases "split_sign (drop 1 rest)")
  have "s = mant @ rest" by (simp add: mant_def rest_def)
  moreover have "mant = ip @ pt" by (simp add: ip_def pt_def)
  ultimately have s: "set s = set ip \<union> set pt \<union> set rest" by auto
  from assms(1) sg
  have mant_ok: "if pt = [] then digitpart ip
      else (ip = [] \<or> digitpart ip) \<and> (fp = [] \<or> digitpart fp) \<and> \<not> (ip = [] \<and> fp = [])"
    and exp_ok: "rest = [] \<or> digitpart ds"
    by (auto simp: decimal_literal_def Let_def mant_def rest_def ip_def pt_def fp_def
        split: if_splits)
  have a: "is_digit c \<or> c = CHR ''_''" if "c \<in> set ip"
    using that mant_ok digitpart_chars [of ip c] by (auto split: if_splits)
  have b: "is_digit c \<or> c = CHR ''_'' \<or> c = CHR ''.''" if c: "c \<in> set pt"
  proof -
    from c have ne: "pt \<noteq> []" by auto
    then have "hd pt = CHR ''.''"
      unfolding pt_def using hd_dropWhile [of "\<lambda>c. c \<noteq> CHR ''.''" mant] by simp
    with ne have "pt = CHR ''.'' # fp" by (cases pt) (simp_all add: fp_def)
    with c have "c = CHR ''.'' \<or> c \<in> set fp" by auto
    then show ?thesis
      using mant_ok ne digitpart_chars [of fp c] by (auto split: if_splits)
  qed
  have d: "is_digit c \<or> c = CHR ''_'' \<or> is_exp_mark c \<or> c = CHR ''+'' \<or> c = CHR ''-''"
    if c: "c \<in> set rest"
  proof -
    from c have ne: "rest \<noteq> []" by auto
    then have "is_exp_mark (hd rest)"
      unfolding rest_def using hd_dropWhile [of "\<lambda>c. \<not> is_exp_mark c" s] by simp
    moreover from ne have "rest = hd rest # drop 1 rest" by (cases rest) simp_all
    ultimately have "is_exp_mark c \<or> c \<in> set (drop 1 rest)"
      using c by (metis set_ConsD)
    moreover have "c \<in> set (drop 1 rest) \<Longrightarrow> c \<in> set ds \<or> c = CHR ''+'' \<or> c = CHR ''-''"
      using split_sign_chars [OF sg] by blast
    moreover have "c \<in> set ds \<Longrightarrow> is_digit c \<or> c = CHR ''_''"
      using exp_ok ne digitpart_chars [of ds c] by auto
    ultimately show ?thesis by blast
  qed
  from assms(2) s a b d show ?thesis by (auto simp: is_exp_mark_def)
qed


lemma py_float_chars:
  assumes "py_float s = Some x" "c \<in> set (float_strip s)"
  shows "\<not> is_space c"
proof
  assume sp: "is_space c"
  obtain neg body where sg: "split_sign (float_strip s) = (neg, body)"
    by (cases "split_sign (float_strip s)")
  from split_sign_chars [OF sg assms(2)] sp space_not_token [OF sp]
  have cb: "c \<in> set body" by auto
  then have lc: "c \<in> set (lower body)"
    using space_lower [OF sp] by (force simp: lower_def)
  show False
  proof (cases "lower body = ''inf'' \<or> lower body = ''infinity'' \<or> lower body = ''nan''")
    case True
    with lc have "c \<in> set ''infinityan''" by auto
    with space_not_token [OF sp] show False by simp
  next
    case False
    with assms(1) sg obtain mx where "decimal_literal body = Some mx"
      by (auto simp: py_float_def split: option.splits)
    from decimal_literal_chars [OF this cb] space_not_token [OF sp] show False by simp
  qed
qed

lemma ends_not_dropped: "xs \<noteq> [] \<Longrightarrow> \<not> P (hd xs) \<Longrightarrow> \<not> P (last xs) \<Longrightarrow>
    rev (dropWhile P (rev (dropWhile P xs))) = xs"
proof -
  assume a: "xs \<noteq> []" "\<not> P (hd xs)" "\<not> P (last xs)"
  then have "dropWhile P xs = xs" by (simp add: dropWhile_eq_self_iff)
  moreover have "dropWhile P (rev xs) = rev xs"
    using a by (simp add: dropWhile_eq_self_iff hd_rev)
  ultimately show ?thesis by simp
qed

lemma float_strip_decompose:
  "\<exists>f1 f2. s = f1 @ float_strip s @ f2 \<and> (\<forall>c\<in>set f1. is_float_space c) \<and>
     (\<forall>c\<in>set f2. is_float_space c)"
proof -
  define u where "u = dropWhile is_float_space s"
  have "s = takeWhile is_float_space s @ u" by (simp add: u_def)
  moreover have "rev u = takeWhile is_float_space (rev u) @ dropWhile is_float_space (rev u)"
    by simp
  then have "u = rev (dropWhile is_float_space (rev u)) @ rev (takeWhile is_float_space (rev u))"
    by (metis rev_append rev_rev_ident)
  then have "u = float_strip s @ rev (takeWhile is_float_space (rev u))"
    by (simp add: float_strip_def u_def)
  moreover have "\<forall>c\<in>set (takeWhile is_float_space s). is_float_space c"
    by (auto dest: set_takeWhileD)
  moreover have "\<forall>c\<in>set (rev (takeWhile is_float_space (rev u))). is_float_space c"
    by (auto dest: set_takeWhileD)
  ultimately show ?thesis by metis
qed

lemma py_float_strip:
  assumes "py_float s = Some x"
  shows "py_float (strip s) = Some x"
proof -
  define core where "core = float_strip s"
  from float_strip_decompose [of s] obtain f1 f2 where
    s: "s = f1 @ core @ f2" and f: "\<forall>c\<in>set f1. is_space c" "\<forall>c\<in>set f2. is_space c"
    unfolding core_def by (blast intro: float_space_space)
  have ns: "\<forall>c\<in>set core. \<not> is_space c"
    using py_float_chars [OF assms] by (simp add: core_def)
  have "strip s = strip core" using strip_spaces [OF f, of core] s by simp
  also have "strip core = core"
  proof (cases "core = []")
    case True
    then show ?thesis by (simp add: strip_def)
  next
    case False
    then show ?thesis using ns unfolding strip_def by (intro ends_not_dropped) simp_all
  qed
  finally have st: "strip s = core" .
  have "float_strip core = core"
  proof (cases "core = []")
    case True
    then show ?thesis by (simp add: float_strip_def)
  next
    case False
    then show ?thesis using ns unfolding float_strip_def
      by (intro ends_not_dropped) (auto dest: float_space_space)
  qed
  then have "py_float core = py_float s" by (simp add: py_float_def core_def)
  with st assms show ?thesis by simp
qed

lemma cost_key_cost: "is_cost_key ''cost''"
  by (simp add: is_cost_key_def lower_def lower_char_def upper_letters_def lower_letters_def)

lemma py_float_15: "py_float ''15'' = Some (Finite 8444249301319680 (- 49))"
  by code_simp

lemma strip_15: "strip ''15'' = ''15''"
  by (simp add: strip_def is_space_def)

lemma valof_15: "valof (Finite 8444249301319680 (- 49)) = 15"
  by (simp add: valof_def)

section \<open>Numeric cost values\<close>

text \<open>
  C8 (as amended). A cost-field value that is a float is returned unchanged, and an
  integer of absolute value at most \<open>2 ^ 53\<close> is returned as the float equal to it.
  Larger integers need not be binary64 numbers, and \<^verbatim>\<open>float\<close> rounds them.
\<close>

theorem to_float_numeric:
  "to_float (PFloat x) = Inr x \<and>
   (\<bar>i\<bar> \<le> 2 ^ 53 \<longrightarrow> (\<exists>y. to_float (PInt i) = Inr y \<and> valof y = of_int i))"
  using float_of_int_exact [of i] by simp

theorem to_float_numeric_witness:
  "to_float (PFloat (Finite 1 (- 1))) = Inr (Finite 1 (- 1)) \<and> \<bar>20 :: int\<bar> \<le> 2 ^ 53 \<and>
   (\<exists>y. to_float (PInt 20) = Inr y \<and> valof y = of_int 20)"
  using to_float_numeric [of "Finite 1 (- 1)" 20] by simp

text \<open>
  The integer \<open>2 ^ 53 + 1\<close> is returned as the float \<open>2 ^ 53\<close>, which is not equal to it.
\<close>

theorem to_float_numeric_counterexample:
  "to_float (PInt 9007199254740993) = Inr (Finite 4503599627370496 1) \<and>
   valof (Finite 4503599627370496 1) \<noteq> of_int 9007199254740993"
  by (simp add: float_of_int_def round64_eval valof_def)

section \<open>Cost strings\<close>

text \<open>
  C7. A cost-field string made of whitespace, a dollar sign, a number and whitespace is
  coerced to the value of the number, in both scripts: a number is a string without
  dollar sign that \<^verbatim>\<open>float\<close> accepts, and its value is what \<^verbatim>\<open>float\<close>
  returns for it. A string that does not parse once its dollar signs and surrounding
  whitespace are removed is coerced to 0.0.
\<close>

theorem dollar_number:
  "(py_float num = Some x \<and> CHR ''$'' \<notin> set num \<and>
    (\<forall>c\<in>set ws1. is_space c) \<and> (\<forall>c\<in>set ws2. is_space c) \<longrightarrow>
      to_float (PStr (ws1 @ ''$'' @ num @ ws2)) = Inr x \<and>
      extract_node_cost [(''cost'', PStr (ws1 @ ''$'' @ num @ ws2))] = x) \<and>
   (py_float (strip (replace_dollar s)) = None \<longrightarrow>
      to_float (PStr s) = Inr (Finite 0 0) \<and>
      extract_node_cost [(''cost'', PStr s)] = Finite 0 0)"
proof (intro conjI impI)
  assume a: "py_float num = Some x \<and> CHR ''$'' \<notin> set num \<and>
    (\<forall>c\<in>set ws1. is_space c) \<and> (\<forall>c\<in>set ws2. is_space c)"
  then have w1: "\<forall>c\<in>set ws1. is_space c" and w2: "\<forall>c\<in>set ws2. is_space c" by simp_all
  have "replace_dollar ws1 = ws1" "replace_dollar ws2 = ws2" "replace_dollar num = num"
    using a by (auto intro!: replace_dollar_id dest: space_not_dollar)
  then have "replace_dollar (ws1 @ ''$'' @ num @ ws2) = ws1 @ num @ ws2"
    by (simp add: replace_dollar_append)
  then have "py_float (strip (replace_dollar (ws1 @ ''$'' @ num @ ws2))) = py_float (strip num)"
    by (simp only: strip_spaces [OF w1 w2])
  also have "\<dots> = Some x"
    using a by (simp add: py_float_strip)
  finally have "py_float (strip (replace_dollar (ws1 @ ''$'' @ num @ ws2))) = Some x" .
  then show "to_float (PStr (ws1 @ ''$'' @ num @ ws2)) = Inr x"
    and "extract_node_cost [(''cost'', PStr (ws1 @ ''$'' @ num @ ws2))] = x"
    by (simp_all add: cost_key_cost)
next
  assume "py_float (strip (replace_dollar s)) = None"
  then show "to_float (PStr s) = Inr (Finite 0 0)"
    and "extract_node_cost [(''cost'', PStr s)] = Finite 0 0"
    by (simp_all add: cost_key_cost)
qed

lemma py_float_0123: "py_float ''0.123'' = Some (Finite 8863084066665136 (- 56))"
  by code_simp

lemma py_float_abc: "py_float ''abc'' = None"
  by code_simp

lemma strip_abc: "strip ''abc'' = ''abc''"
  by (simp add: strip_def is_space_def)

lemma space_nl: "is_space CHR '' '' \<and> is_space CHR 0x0A"
  by (simp add: is_space_def)

theorem dollar_number_witness:
  "py_float ''0.123'' = Some (Finite 8863084066665136 (- 56)) \<and>
   to_float (PStr ('' '' @ ''$'' @ ''0.123'' @ [CHR 0x0A])) = Inr (Finite 8863084066665136 (- 56)) \<and>
   extract_node_cost [(''cost'', PStr ('' '' @ ''$'' @ ''0.123'' @ [CHR 0x0A]))] =
     Finite 8863084066665136 (- 56) \<and>
   py_float (strip (replace_dollar ''abc'')) = None \<and>
   to_float (PStr ''abc'') = Inr (Finite 0 0) \<and>
   extract_node_cost [(''cost'', PStr ''abc'')] = Finite 0 0"
proof -
  have h: "py_float ''0.123'' = Some (Finite 8863084066665136 (- 56)) \<and>
      CHR ''$'' \<notin> set ''0.123'' \<and>
      (\<forall>c\<in>set '' ''. is_space c) \<and> (\<forall>c\<in>set [CHR 0x0A]. is_space c)"
    by (simp add: py_float_0123 space_nl)
  have n: "py_float (strip (replace_dollar ''abc'')) = None"
    by (simp add: py_float_abc strip_abc)
  from dollar_number [of "''0.123''" "Finite 8863084066665136 (- 56)" "'' ''" "[CHR 0x0A]" "''abc''"]
    h n
  show ?thesis by blast
qed

text \<open>
  C10. The coercion removes every dollar sign of the string, wherever it occurs, before
  it strips and parses: the result for a string is the result for the string without
  its dollar signs, and \<^verbatim>\<open>1$5\<close> is coerced to the float 15.0, in both scripts.
\<close>

theorem interior_dollar:
  "to_float (PStr s) = to_float (PStr (filter (\<lambda>c. c \<noteq> CHR ''$'') s)) \<and>
   float_of_str (PStr s) = float_of_str (PStr (filter (\<lambda>c. c \<noteq> CHR ''$'') s)) \<and>
   to_float (PStr ''1$5'') = Inr (Finite 8444249301319680 (- 49)) \<and>
   extract_node_cost [(''cost'', PStr ''1$5'')] = Finite 8444249301319680 (- 49) \<and>
   valof (Finite 8444249301319680 (- 49)) = 15"
proof -
  have "replace_dollar (filter (\<lambda>c. c \<noteq> CHR ''$'') s) = replace_dollar s"
    by (simp add: replace_dollar_filter)
  then show ?thesis
    by (simp add: strip_15 py_float_15 cost_key_cost valof_15)
qed

section \<open>Record count\<close>

text \<open>
  C6. When the extraction result is a dictionary whose \<^verbatim>\<open>content\<close> key holds a
  list of records, the record count of both scripts is the length of that list.
\<close>

theorem content_count:
  "map_of d ''content'' = Some (PList records) \<Longrightarrow>
   n_reviews (PDict d) = Inr (length records) \<and> cars_in_run (PDict d) = Inr (length records)"
  by (simp add: n_reviews_def cars_in_run_def dict_get_def)

text \<open>A content list of three records gives the count 3.\<close>

theorem content_count_witness:
  "map_of [(''content'', PList [PDict [], PDict [], PDict []])] ''content'' =
     Some (PList [PDict [], PDict [], PDict []]) \<and>
   n_reviews (PDict [(''content'', PList [PDict [], PDict [], PDict []])]) = Inr 3 \<and>
   cars_in_run (PDict [(''content'', PList [PDict [], PDict [], PDict []])]) = Inr 3"
  using content_count [of "[(''content'', PList [PDict [], PDict [], PDict []])]"
      "[PDict [], PDict [], PDict []]"]
  by simp

section \<open>Total cost\<close>

lemma collect_append:
  "collect (rs @ ss) =
     (case collect rs of
          Inl err \<Rightarrow> Inl err
        | Inr xs \<Rightarrow> (case collect ss of Inl err \<Rightarrow> Inl err | Inr ys \<Rightarrow> Inr (xs @ ys)))"
  by (induction rs rule: collect.induct) (auto split: sum.splits)

lemma sum_node_info_collect:
  "sum_node_info acc node =
     (case collect (map to_float (cost_fields node)) of
          Inl err \<Rightarrow> Inl err
        | Inr xs \<Rightarrow> Inr (foldl fadd acc xs))"
proof (induction node arbitrary: acc)
  case Nil
  then show ?case by (simp add: cost_fields_def)
next
  case (Cons kv node)
  obtain k v where kv: "kv = (k, v)" by (cases kv)
  have cf: "cost_fields ((k, v) # node) = (if is_cost_key k then v # cost_fields node else cost_fields node)"
    by (simp add: cost_fields_def)
  show ?case
  proof (cases "is_cost_key k")
    case True
    then show ?thesis
      by (cases "to_float v") (simp_all add: kv cf Cons.IH split: sum.splits)
  next
    case False
    then show ?thesis by (simp add: kv cf Cons.IH)
  qed
qed

lemma sum_exec_info_collect:
  "sum_exec_info acc exec_info =
     (case collect (map to_float (concat (map cost_fields exec_info))) of
          Inl err \<Rightarrow> Inl err
        | Inr xs \<Rightarrow> Inr (foldl fadd acc xs))"
proof (induction exec_info arbitrary: acc)
  case Nil
  then show ?case by simp
next
  case (Cons node exec_info)
  show ?case
    by (simp add: sum_node_info_collect Cons.IH collect_append split: sum.splits)
qed

lemma extract_node_cost_first: "extract_node_cost node = first_cost_field node"
proof (induction node)
  case Nil
  then show ?case by (simp add: first_cost_field_def cost_fields_def)
next
  case (Cons kv node)
  obtain k v where kv: "kv = (k, v)" by (cases kv)
  show ?case
    using Cons.IH by (simp add: kv first_cost_field_def cost_fields_def)
qed

text \<open>
  C1 (as amended). In autonation_consumer_reviews_live.py the total cost is the sum, over
  every mapping of the sequence and every field of it whose key contains the token cost,
  case-insensitively, of the coerced value of the field. In
  autonation_live_scrape_minimal.py the total cost is the sum, over every mapping, of the
  coerced value of the first such field of the mapping, and of zero for a mapping
  without one.
\<close>

theorem total_cost_sum:
  "total_cost exec_info = spec_total_cost exec_info \<and>
   total_cost_minimal exec_info = py_sum (map first_cost_field exec_info)"
proof
  show "total_cost exec_info = spec_total_cost exec_info"
    unfolding total_cost_def spec_total_cost_def py_sum_def by (rule sum_exec_info_collect)
  have "map extract_node_cost exec_info = map first_cost_field exec_info"
    by (simp add: extract_node_cost_first)
  then show "total_cost_minimal exec_info = py_sum (map first_cost_field exec_info)"
    by (simp only: total_cost_minimal_def)
qed

lemmas key_eval = is_cost_key_def lower_def lower_char_def upper_letters_def lower_letters_def

lemma keys_two_costs:
  "\<not> is_cost_key ''node_name''" "is_cost_key ''prompt_cost''" "is_cost_key ''completion_cost''"
  by (simp_all add: key_eval)

lemma fadd_0_1: "fadd (Finite 0 0) (Finite 4503599627370496 (- 52)) = Finite 4503599627370496 (- 52)"
  by (simp add: round64_eval)

lemma fadd_1_2:
  "fadd (Finite 4503599627370496 (- 52)) (Finite 4503599627370496 (- 51)) = Finite 6755399441055744 (- 51)"
  by (simp add: round64_eval)

text \<open>
  A mapping with two cost-bearing fields, 1.0 and 2.0: the specified total is 3.0, the
  total of the minimal script is 1.0.
\<close>

theorem total_cost_sum_counterexample:
  "spec_total_cost [[(''node_name'', PStr ''GenerateAnswer''),
                     (''prompt_cost'', PFloat (Finite 4503599627370496 (- 52))),
                     (''completion_cost'', PFloat (Finite 4503599627370496 (- 51)))]]
     = Inr (Finite 6755399441055744 (- 51)) \<and>
   total_cost_minimal [[(''node_name'', PStr ''GenerateAnswer''),
                        (''prompt_cost'', PFloat (Finite 4503599627370496 (- 52))),
                        (''completion_cost'', PFloat (Finite 4503599627370496 (- 51)))]]
     = Finite 4503599627370496 (- 52) \<and>
   Inr (total_cost_minimal [[(''node_name'', PStr ''GenerateAnswer''),
                        (''prompt_cost'', PFloat (Finite 4503599627370496 (- 52))),
                        (''completion_cost'', PFloat (Finite 4503599627370496 (- 51)))]])
     \<noteq> spec_total_cost [[(''node_name'', PStr ''GenerateAnswer''),
                     (''prompt_cost'', PFloat (Finite 4503599627370496 (- 52))),
                     (''completion_cost'', PFloat (Finite 4503599627370496 (- 51)))]]"
  by (simp add: spec_total_cost_def cost_fields_def total_cost_minimal_def py_sum_def
      keys_two_costs fadd_0_1 fadd_1_2 del: fadd.simps)

section \<open>The guard of the cost projection\<close>

lemma float_of_int_pos:
  assumes "0 < i"
  shows "float_of_int i = Inl OverflowError \<or> (\<exists>m e. float_of_int i = Inr (Finite m e) \<and> 0 < m)"
    and "i < 2 ^ 1023 \<Longrightarrow> \<exists>m e. float_of_int i = Inr (Finite m e) \<and> 0 < m"
  using round64_int_pos [OF assms] by (auto simp: float_of_int_def)

lemma fdiv_nonzero: "m \<noteq> 0 \<Longrightarrow> \<exists>c. fdiv x (Finite m e) = Inr c"
  by (cases x) simp_all

lemma truediv_pos:
  assumes "0 < n"
  shows "truediv x n \<noteq> Inl ZeroDivisionError"
    and "n < 2 ^ 1023 \<Longrightarrow> \<exists>c. truediv x n = Inr c"
proof -
  from float_of_int_pos(1) [OF assms]
  show "truediv x n \<noteq> Inl ZeroDivisionError"
  proof
    assume "float_of_int n = Inl OverflowError"
    then show ?thesis by (simp add: truediv_def)
  next
    assume "\<exists>m e. float_of_int n = Inr (Finite m e) \<and> 0 < m"
    then obtain m e where f: "float_of_int n = Inr (Finite m e)" "0 < m" by blast
    then have "m \<noteq> 0" by simp
    from fdiv_nonzero [OF this, of x e] obtain c where "fdiv x (Finite m e) = Inr c" by blast
    with f show ?thesis by (simp add: truediv_def del: fdiv.simps)
  qed
  show "\<exists>c. truediv x n = Inr c" if "n < 2 ^ 1023"
  proof -
    from float_of_int_pos(2) [OF assms that]
    obtain m e where f: "float_of_int n = Inr (Finite m e)" "0 < m" by blast
    then have "m \<noteq> 0" by simp
    from fdiv_nonzero [OF this, of x e] obtain c where "fdiv x (Finite m e) = Inr c" by blast
    with f show ?thesis by (simp add: truediv_def del: fdiv.simps)
  qed
qed

lemma float_of_int_quantities:
  "float_of_int 100 = Inr (Finite 7036874417766400 (- 46))"
  "float_of_int 1000 = Inr (Finite 8796093022208000 (- 43))"
  "float_of_int 100000 = Inr (Finite 6871947673600000 (- 36))"
  "float_of_int 1000000 = Inr (Finite 8589934592000000 (- 33))"
  by (simp_all add: float_of_int_def round64_eval)

lemma project_ok: "\<exists>s ls. project tot c = Inr (Projected c s ls)"
  by (simp add: project_def PROJECTIONS_def int_times_def float_of_int_quantities)

lemma project_no_zero_div: "project tot c \<noteq> Inl ZeroDivisionError"
  using project_ok [of tot c] by auto

text \<open>
  C2 (as amended). When the record count is 0 or the total cost is 0.0, both scripts
  report that the cost cannot be projected. When the record count is positive and the
  total cost is greater than 0, both scripts divide the total cost by the record count;
  for a count below \<open>2 ^ 1023\<close> the division returns. No record count and no total cost
  make either script raise ZeroDivisionError.
\<close>

theorem projection_guard:
  "(n = 0 \<or> float_is_zero tot \<longrightarrow>
      cost_per_review n tot = Inr Unable \<and> cost_per_car n tot = Inr Unable) \<and>
   (0 < n \<and> float_gt0 tot \<longrightarrow>
      cost_per_review n tot =
        (case truediv tot (int n) of Inl err \<Rightarrow> Inl err | Inr c \<Rightarrow> project tot c) \<and>
      cost_per_car n tot = cost_per_review n tot) \<and>
   (0 < n \<and> n < 2 ^ 1023 \<and> float_gt0 tot \<longrightarrow>
      (\<exists>c s ls. truediv tot (int n) = Inr c \<and> cost_per_review n tot = Inr (Projected c s ls))) \<and>
   cost_per_review n tot \<noteq> Inl ZeroDivisionError \<and>
   cost_per_car n tot \<noteq> Inl ZeroDivisionError"
proof (intro conjI impI)
  assume "n = 0 \<or> float_is_zero tot"
  then show "cost_per_review n tot = Inr Unable" "cost_per_car n tot = Inr Unable"
    by (cases tot; auto simp: cost_per_review_def cost_per_car_def)+
next
  assume a: "0 < n \<and> float_gt0 tot"
  then have t: "float_truthy tot" by (cases tot) auto
  from a show r: "cost_per_review n tot =
      (case truediv tot (int n) of Inl err \<Rightarrow> Inl err | Inr c \<Rightarrow> project tot c)"
    by (simp add: cost_per_review_def)
  from a t show "cost_per_car n tot = cost_per_review n tot"
    by (simp add: cost_per_review_def cost_per_car_def)
next
  assume a: "0 < n \<and> n < 2 ^ 1023 \<and> float_gt0 tot"
  then have "0 < int n" "int n < 2 ^ 1023" by (simp_all flip: of_nat_less_iff add: of_nat_power)
  from truediv_pos(2) [OF this] obtain c where c: "truediv tot (int n) = Inr c" by blast
  from project_ok [of tot c] obtain s ls where "project tot c = Inr (Projected c s ls)" by blast
  with a c show "\<exists>c s ls. truediv tot (int n) = Inr c \<and> cost_per_review n tot = Inr (Projected c s ls)"
    by (simp add: cost_per_review_def)
next
  show "cost_per_review n tot \<noteq> Inl ZeroDivisionError"
  proof (cases "0 < n \<and> float_gt0 tot")
    case True
    then have "0 < int n" by simp
    from truediv_pos(1) [OF this, of tot] True show ?thesis
      by (auto simp: cost_per_review_def project_no_zero_div split: sum.splits)
  next
    case False
    then show ?thesis by (auto simp: cost_per_review_def)
  qed
  show "cost_per_car n tot \<noteq> Inl ZeroDivisionError"
  proof (cases "n \<noteq> 0 \<and> float_truthy tot")
    case True
    then have "0 < int n" by simp
    from truediv_pos(1) [OF this, of tot] True show ?thesis
      by (auto simp: cost_per_car_def project_no_zero_div split: sum.splits)
  next
    case False
    then show ?thesis by (auto simp: cost_per_car_def)
  qed
qed

lemma float_gt0_one: "float_gt0 (Finite 4503599627370496 (- 52))"
  by simp

theorem projection_guard_witness:
  "cost_per_review 0 (Finite 4503599627370496 (- 52)) = Inr Unable \<and>
   cost_per_car 0 (Finite 4503599627370496 (- 52)) = Inr Unable \<and>
   cost_per_review 2 (Finite 0 0) = Inr Unable \<and>
   cost_per_car 2 (Finite 0 0) = Inr Unable \<and>
   0 < (2::nat) \<and> (2::nat) < 2 ^ 1023 \<and> float_gt0 (Finite 4503599627370496 (- 52)) \<and>
   (\<exists>c s ls. truediv (Finite 4503599627370496 (- 52)) (int 2) = Inr c \<and>
      cost_per_review 2 (Finite 4503599627370496 (- 52)) = Inr (Projected c s ls)) \<and>
   cost_per_car 2 (Finite 4503599627370496 (- 52)) = cost_per_review 2 (Finite 4503599627370496 (- 52))"
proof -
  have h: "0 < (2::nat) \<and> (2::nat) < 2 ^ 1023 \<and> float_gt0 (Finite 4503599627370496 (- 52))"
    by simp
  have h': "0 < (2::nat) \<and> float_gt0 (Finite 4503599627370496 (- 52))"
    by simp
  note a = projection_guard [of 0 "Finite 4503599627370496 (- 52)"]
  note b = projection_guard [of 2 "Finite 0 0"]
  note c = projection_guard [of 2 "Finite 4503599627370496 (- 52)"]
  from a have 1: "cost_per_review 0 (Finite 4503599627370496 (- 52)) = Inr Unable"
    and 2: "cost_per_car 0 (Finite 4503599627370496 (- 52)) = Inr Unable" by simp_all
  from b have 3: "cost_per_review 2 (Finite 0 0) = Inr Unable"
    and 4: "cost_per_car 2 (Finite 0 0) = Inr Unable" by simp_all
  from c h have 5: "\<exists>c s ls. truediv (Finite 4503599627370496 (- 52)) (int 2) = Inr c \<and>
      cost_per_review 2 (Finite 4503599627370496 (- 52)) = Inr (Projected c s ls)"
    by blast
  from c h' have 6: "cost_per_car 2 (Finite 4503599627370496 (- 52)) =
      cost_per_review 2 (Finite 4503599627370496 (- 52))"
    by blast
  from 1 2 3 4 5 6 h show ?thesis by blast
qed

text \<open>
  With one record and the total cost -1.0, neither zero, the reviews script reports that
  the cost cannot be projected: its guard is \<^verbatim>\<open>total_cost > 0\<close>.
\<close>

theorem projection_guard_counterexample:
  "(1::nat) \<noteq> 0 \<and> \<not> float_is_zero (Finite (- 4503599627370496) (- 52)) \<and>
   cost_per_review 1 (Finite (- 4503599627370496) (- 52)) = Inr Unable"
  by (simp add: cost_per_review_def)

section \<open>The projection of the example\<close>

lemma digits_of_eval:
  "digits_of 0 = ''0''" "digits_of (Suc 0) = ''1''" "digits_of 1 = ''1''"
  "digits_of (numeral k) =
     (if (numeral k :: nat) < 10 then [digit_char (numeral k)]
      else digits_of (numeral k div 10) @ [digit_char (numeral k mod 10)])"
  by (simp_all add: digits_of.simps [of 0] digits_of.simps [of "Suc 0"]
      digits_of.simps [of "numeral k"] digit_char_def)

lemma replicate_eval: "replicate (numeral k) x = x # replicate (pred_numeral k) x"
  by (simp add: numeral_eq_Suc)

lemmas format_eval = round_half_even_def Let_def digits_of_eval digit_char_def group3_def
  pad_zeros_def format_quantity_def replicate_eval

lemma example_division:
  "truediv (Finite 4503599627370496 (- 50)) 20 = Inr (Finite 7205759403792794 (- 55))"
  by (simp add: truediv_def float_of_int_def round64_eval)

lemma example_products:
  "int_times 100 (Finite 7205759403792794 (- 55)) = Inr (Finite 5629499534213120 (- 48))"
  "int_times 1000 (Finite 7205759403792794 (- 55)) = Inr (Finite 7036874417766400 (- 45))"
  "int_times 100000 (Finite 7205759403792794 (- 55)) = Inr (Finite 5497558138880000 (- 38))"
  "int_times 1000000 (Finite 7205759403792794 (- 55)) = Inr (Finite 6871947673600000 (- 35))"
  by (simp_all add: int_times_def float_of_int_def round64_eval)

lemma example_costs:
  "format_fixed True 2 (Finite 5629499534213120 (- 48)) = ''20.00''"
  "format_fixed True 2 (Finite 7036874417766400 (- 45)) = ''200.00''"
  "format_fixed True 2 (Finite 5497558138880000 (- 38)) = ''20,000.00''"
  "format_fixed True 2 (Finite 6871947673600000 (- 35)) = ''200,000.00''"
  "format_fixed False 4 (Finite 4503599627370496 (- 50)) = ''4.0000''"
  "format_fixed False 6 (Finite 7205759403792794 (- 55)) = ''0.200000''"
  by (simp_all add: format_eval)

lemma example_quantities:
  "format_quantity 100 = ''      100''"
  "format_quantity 1000 = ''    1,000''"
  "format_quantity 100000 = ''  100,000''"
  "format_quantity 1000000 = ''1,000,000''"
  by (simp_all add: format_eval)

lemma example_total: "py_float ''4.00'' = Some (Finite 4503599627370496 (- 50))"
  by code_simp

lemma example_cost_per: "py_float ''0.20'' = Some (Finite 7205759403792794 (- 55))"
  by code_simp

text \<open>
  C9. With the total cost 4.00 and 20 records the cost per record is the float 0.20, and
  the projected cost reported for 1,000 records is \<^verbatim>\<open>200.00\<close>; the other figures of
  the report are as listed.
\<close>

theorem projection_example:
  "py_float ''4.00'' = Some (Finite 4503599627370496 (- 50)) \<and>
   py_float ''0.20'' = Some (Finite 7205759403792794 (- 55)) \<and>
   cost_per_review 20 (Finite 4503599627370496 (- 50)) =
     Inr (Projected (Finite 7205759403792794 (- 55)) (''4.0000'', ''0.200000'')
       [(100, ''      100'', ''20.00''),
        (1000, ''    1,000'', ''200.00''),
        (100000, ''  100,000'', ''20,000.00''),
        (1000000, ''1,000,000'', ''200,000.00'')])"
  by (simp add: example_total example_cost_per cost_per_review_def example_division project_def
      PROJECTIONS_def example_products example_costs example_quantities
      del: format_fixed.simps)

section \<open>An unexpected result shape\<close>

text \<open>
  In autonation_consumer_reviews_live.py a result that is neither a list nor a dictionary
  with a \<^verbatim>\<open>content\<close> key gets the diagnostic message in place of the preview and
  the record count 0. In autonation_live_scrape_minimal.py a dictionary without
  \<^verbatim>\<open>content\<close> gets the count 0.
\<close>

lemma unexpected_shape_reviews:
  "\<not> is_list r \<Longrightarrow> \<not> has_content r \<Longrightarrow>
   preview_reviews r = Inr Unexpected \<and> n_reviews r = Inr 0"
  by (cases r) (auto simp: n_reviews_def dict_get_def)

lemma unexpected_shape_minimal_dict:
  "map_of d ''content'' = None \<Longrightarrow> cars_in_run (PDict d) = Inr 0"
  by (simp add: cars_in_run_def dict_get_def)

text \<open>
  C3. The claim is that every result that is neither a list nor a dictionary with a
  \<^verbatim>\<open>content\<close> key leaves the run going with a record count of 0. The string
  \<^verbatim>\<open>No answer found.\<close>, which \<^verbatim>\<open>SmartScraperGraph.run()\<close> returns when the
  graph has no answer, is such a result: the reviews script handles it as claimed, but
  in the minimal script \<^verbatim>\<open>result.get\<close> raises AttributeError, and so does None.
\<close>

theorem cars_no_answer:
  "cars (PStr ''No answer found.'') = Inl AttributeError \<and>
   cars_in_run (PStr ''No answer found.'') = Inl AttributeError \<and>
   cars PNone = Inl AttributeError \<and>
   preview_reviews (PStr ''No answer found.'') = Inr Unexpected \<and>
   n_reviews (PStr ''No answer found.'') = Inr 0"
  by (simp add: cars_in_run_def n_reviews_def)

section \<open>The rounds of the polling loop\<close>

lemma lookups_append: "lookups (xs @ ys) = lookups xs + lookups ys"
  by (simp add: lookups_def)

lemma round_run:
  "run_calls env [Click i, WaitForTimeout i, PressEnd i] tr = (c, tr') \<Longrightarrow>
   lookups tr' = lookups tr \<and>
   (c = None \<longrightarrow> tr' = tr @ [Called (Click i), Called (WaitForTimeout i), Called (PressEnd i)]) \<and>
   ((\<forall>k. \<not> raises env k) \<longrightarrow> c = None)"
  by (auto simp: lookups_def split: if_splits)

lemma load_more_loop_upto:
  assumes "\<not> load_more env n" "\<forall>j<n. load_more env j"
  shows "i \<le> n \<Longrightarrow>
    \<exists>st tr'. load_more_loop env i tr = Some (st, tr') \<and>
      lookups tr' \<le> lookups tr + Suc (n - i) \<and>
      ((\<forall>k. \<not> raises env k) \<longrightarrow>
         st = None \<and> tr' = tr @ concat (map round_calls [i..<n]) @ [Called (QuerySelector n)])"
proof (induction "n - i" arbitrary: i tr)
  case 0
  then have i: "i = n" by simp
  show ?case
    using assms(1)
    by (subst load_more_loop.simps) (auto simp: i lookups_append lookups_def)
next
  case (Suc d)
  then have lt: "i < n" and d: "d = n - Suc i" and le: "Suc i \<le> n" by simp_all
  from lt assms(2) have lm: "load_more env i" by simp
  let ?tr1 = "tr @ [Called (QuerySelector i)]"
  have l1: "lookups ?tr1 = Suc (lookups tr)" by (simp add: lookups_append lookups_def)
  show ?case
  proof (cases "raises env (QuerySelector i)")
    case True
    then show ?thesis
      by (subst load_more_loop.simps) (auto simp: l1)
  next
    case False
    obtain c tr2 where rc: "run_calls env [Click i, WaitForTimeout i, PressEnd i] ?tr1 = (c, tr2)"
      by (cases "run_calls env [Click i, WaitForTimeout i, PressEnd i] ?tr1")
    note rr = round_run [OF rc]
    show ?thesis
    proof (cases c)
      case (Some k)
      have "load_more_loop env i tr = Some (Some k, tr2)"
        using False lm rc Some by (subst load_more_loop.simps) simp
      moreover have "lookups tr2 \<le> lookups tr + Suc (n - i)" using rr l1 by simp
      moreover have "\<not> (\<forall>k. \<not> raises env k)" using rr Some by auto
      ultimately show ?thesis by blast
    next
      case None
      have eq: "load_more_loop env i tr = load_more_loop env (Suc i) tr2"
        using False lm rc None by (subst load_more_loop.simps) simp
      from rr None have tr2: "tr2 = tr @ round_calls i"
        by (simp add: round_calls_def)
      from Suc.hyps(1) [OF d le, of tr2] obtain st tr'
        where r: "load_more_loop env (Suc i) tr2 = Some (st, tr')"
          and l: "lookups tr' \<le> lookups tr2 + Suc (n - Suc i)"
          and f: "(\<forall>k. \<not> raises env k) \<longrightarrow>
            st = None \<and> tr' = tr2 @ concat (map round_calls [Suc i..<n]) @ [Called (QuerySelector n)]"
        by blast
      have "lookups tr' \<le> lookups tr + Suc (n - i)"
        using l rr l1 lt by simp
      moreover have "[i..<n] = i # [Suc i..<n]" using lt by (simp add: upt_conv_Cons)
      then have "(\<forall>k. \<not> raises env k) \<longrightarrow>
            st = None \<and> tr' = tr @ concat (map round_calls [i..<n]) @ [Called (QuerySelector n)]"
        using f tr2 by simp
      ultimately show ?thesis using r eq by simp
    qed
  qed
qed

section \<open>Release of the browser session\<close>

lemma run_calls_extends:
  "run_calls env cs tr = (r, tr') \<Longrightarrow> \<exists>ext. tr' = tr @ ext \<and> Stopped \<notin> set ext"
proof (induction cs arbitrary: tr)
  case Nil
  then show ?case by simp
next
  case (Cons c cs)
  show ?case
  proof (cases "raises env c")
    case True
    with Cons.prems show ?thesis by auto
  next
    case False
    with Cons.prems have "run_calls env cs (tr @ [Called c]) = (r, tr')" by simp
    from Cons.IH [OF this] obtain ext where "tr' = (tr @ [Called c]) @ ext" "Stopped \<notin> set ext"
      by blast
    then have "tr' = tr @ (Called c # ext) \<and> Stopped \<notin> set (Called c # ext)" by simp
    then show ?thesis by blast
  qed
qed

lemma load_more_loop_snd:
  assumes "load_more_loop env i tr = Some y"
  shows "\<exists>ext. snd y = tr @ ext \<and> Stopped \<notin> set ext"
proof (induct env i tr y rule: load_more_loop.raw_induct)
  case (1 loop env i tr y)
  note IH = 1(1) and step = 1(2)
  let ?tr1 = "tr @ [Called (QuerySelector i)]"
  show ?case
  proof (cases "raises env (QuerySelector i) \<or> \<not> load_more env i")
    case True
    with step have "snd y = tr @ [Called (QuerySelector i)]" by (auto split: if_splits)
    then show ?thesis by auto
  next
    case False
    obtain c tr2 where rc: "run_calls env [Click i, WaitForTimeout i, PressEnd i] ?tr1 = (c, tr2)"
      by (cases "run_calls env [Click i, WaitForTimeout i, PressEnd i] ?tr1")
    from run_calls_extends [OF rc] obtain e1 where e1: "tr2 = ?tr1 @ e1" "Stopped \<notin> set e1"
      by blast
    show ?thesis
    proof (cases c)
      case None
      with False step rc have "loop env (Suc i) tr2 = Some y" by simp
      from IH [OF this] obtain e2 where "snd y = tr2 @ e2" "Stopped \<notin> set e2" by blast
      with e1 have "snd y = tr @ (Called (QuerySelector i) # e1 @ e2) \<and>
          Stopped \<notin> set (Called (QuerySelector i) # e1 @ e2)" by simp
      then show ?thesis by blast
    next
      case (Some d)
      with False step rc have "snd y = tr2" by auto
      with e1 have "snd y = tr @ (Called (QuerySelector i) # e1) \<and>
          Stopped \<notin> set (Called (QuerySelector i) # e1)" by simp
      then show ?thesis by blast
    qed
  qed
qed (rule assms)

lemma load_more_loop_extends:
  "load_more_loop env i tr = Some (r, tr') \<Longrightarrow> \<exists>ext. tr' = tr @ ext \<and> Stopped \<notin> set ext"
  using load_more_loop_snd [of env i tr "(r, tr')"] by simp

lemma render_body_extends:
  assumes "render_body env tr = Some (res, tr')"
  shows "\<exists>ext. tr' = tr @ ext \<and> Stopped \<notin> set ext"
proof -
  obtain c1 tr1 where r1: "run_calls env [Launch, NewPage, Goto] tr = (c1, tr1)"
    by (cases "run_calls env [Launch, NewPage, Goto] tr")
  from run_calls_extends [OF r1] obtain e1 where e1: "tr1 = tr @ e1" "Stopped \<notin> set e1" by blast
  show ?thesis
  proof (cases c1)
    case (Some c)
    with assms r1 have "tr' = tr1" by (simp add: render_body_def)
    with e1 show ?thesis by blast
  next
    case None
    with assms r1 obtain c2 tr2 where r2: "load_more_loop env 0 tr1 = Some (c2, tr2)"
      by (cases "load_more_loop env 0 tr1") (auto simp: render_body_def)
    from load_more_loop_extends [OF r2] obtain e2 where e2: "tr2 = tr1 @ e2" "Stopped \<notin> set e2"
      by blast
    show ?thesis
    proof (cases c2)
      case (Some c)
      with assms r1 r2 None have "tr' = tr2" by (simp add: render_body_def)
      with e1 e2 have "tr' = tr @ (e1 @ e2) \<and> Stopped \<notin> set (e1 @ e2)" by simp
      then show ?thesis by blast
    next
      case n2: None
      obtain c3 tr3 where
        r3: "run_calls env [PressEndFinal, Content, MakeDirs, WriteFile, Close] tr2 = (c3, tr3)"
        by (cases "run_calls env [PressEndFinal, Content, MakeDirs, WriteFile, Close] tr2")
      from run_calls_extends [OF r3] obtain e3 where e3: "tr3 = tr2 @ e3" "Stopped \<notin> set e3"
        by blast
      from assms r1 r2 r3 None n2 have "tr' = tr3"
        by (cases c3) (simp_all add: render_body_def)
      with e1 e2 e3 have "tr' = tr @ (e1 @ e2 @ e3) \<and> Stopped \<notin> set (e1 @ e2 @ e3)" by simp
      then show ?thesis by blast
    qed
  qed
qed

lemma fetch_body_extends:
  assumes "fetch_body env tr = (res, tr')"
  shows "\<exists>ext. tr' = tr @ ext \<and> Stopped \<notin> set ext"
proof -
  obtain c1 tr1 where r1: "run_calls env [Launch, NewContext, NewPage, Goto] tr = (c1, tr1)"
    by (cases "run_calls env [Launch, NewContext, NewPage, Goto] tr")
  from run_calls_extends [OF r1] obtain e1 where e1: "tr1 = tr @ e1" "Stopped \<notin> set e1" by blast
  show ?thesis
  proof (cases c1)
    case (Some c)
    with assms r1 have "tr' = tr1" by (simp add: fetch_body_def)
    with e1 show ?thesis by blast
  next
    case None
    show ?thesis
    proof (cases "raises env WaitForSelector")
      case True
      with assms r1 None
      have "tr' = tr1 @ [Called WaitForSelector, Printed ''Timeout waiting for car tiles.'']"
        by (simp add: fetch_body_def)
      with e1 have "tr' = tr @ (e1 @ [Called WaitForSelector, Printed ''Timeout waiting for car tiles.'']) \<and>
          Stopped \<notin> set (e1 @ [Called WaitForSelector, Printed ''Timeout waiting for car tiles.''])"
        by simp
      then show ?thesis by blast
    next
      case False
      let ?tr2 = "tr1 @ [Called WaitForSelector, Printed ''Car tiles loaded.'']"
      obtain c3 tr3 where r3: "run_calls env [Evaluate, Content, Close] ?tr2 = (c3, tr3)"
        by (cases "run_calls env [Evaluate, Content, Close] ?tr2")
      from run_calls_extends [OF r3] obtain e3 where e3: "tr3 = ?tr2 @ e3" "Stopped \<notin> set e3"
        by blast
      from assms r1 r3 None False have "tr' = tr3"
        by (cases c3) (simp_all add: fetch_body_def)
      with e1 e3 have "tr' = tr @ (e1 @ [Called WaitForSelector, Printed ''Car tiles loaded.''] @ e3) \<and>
          Stopped \<notin> set (e1 @ [Called WaitForSelector, Printed ''Car tiles loaded.''] @ e3)"
        by simp
      then show ?thesis by blast
    qed
  qed
qed

lemma render_full_page_returns:
  assumes "\<exists>n. \<not> load_more env n"
  shows "\<exists>res tr. render_full_page env = Some (res, tr)"
proof -
  define n where "n = (LEAST n. \<not> load_more env n)"
  have a: "\<not> load_more env n" unfolding n_def using assms by (rule LeastI_ex)
  have b: "\<forall>j<n. load_more env j" unfolding n_def using not_less_Least by blast
  show ?thesis
  proof (cases "raises env Start")
    case True
    then show ?thesis by (simp add: render_full_page_def)
  next
    case False
    obtain c1 tr1 where r1: "run_calls env [Launch, NewPage, Goto] [Called Start] = (c1, tr1)"
      by (cases "run_calls env [Launch, NewPage, Goto] [Called Start]")
    show ?thesis
    proof (cases c1)
      case (Some c)
      with False r1 show ?thesis by (simp add: render_full_page_def render_body_def)
    next
      case None
      from load_more_loop_upto [OF a b, of 0 tr1] obtain st tr2
        where l: "load_more_loop env 0 tr1 = Some (st, tr2)" by blast
      obtain c3 tr3 where
        r3: "run_calls env [PressEndFinal, Content, MakeDirs, WriteFile, Close] tr2 = (c3, tr3)"
        by (cases "run_calls env [PressEndFinal, Content, MakeDirs, WriteFile, Close] tr2")
      from False r1 None l r3 show ?thesis
        by (cases st; cases c3) (simp_all add: render_full_page_def render_body_def)
    qed
  qed
qed

text \<open>
  C4. Every run of \<^verbatim>\<open>render_full_page\<close> that ends and every run of
  \<^verbatim>\<open>fetch_rendered_html\<close>, whether it returns the markup or is aborted by a call
  that raises (inside the polling loop, while waiting for the content, or anywhere
  else), ends with the exit of the \<^verbatim>\<open>with sync_playwright()\<close> block, which
  releases the browser session, and the exit happens once, as the last step, unless
  entering the block itself raised and nothing was started. A run of
  \<^verbatim>\<open>render_full_page\<close> does end when some lookup of the load-more button finds no
  match.
\<close>

theorem session_released:
  "(render_full_page env = Some (res, tr) \<longrightarrow>
      (if raises env Start then res = Inl Start \<and> tr = [Called Start]
       else \<exists>body. tr = Called Start # body @ [Stopped] \<and> Stopped \<notin> set body)) \<and>
   (fetch_rendered_html env = (res', tr') \<longrightarrow>
      (if raises env Start then res' = Inl Start \<and> tr' = [Called Start]
       else \<exists>body. tr' = Called Start # body @ [Stopped] \<and> Stopped \<notin> set body)) \<and>
   ((\<exists>n. \<not> load_more env n) \<longrightarrow> (\<exists>r t. render_full_page env = Some (r, t)))"
proof (intro conjI impI)
  assume a: "render_full_page env = Some (res, tr)"
  show "if raises env Start then res = Inl Start \<and> tr = [Called Start]
       else \<exists>body. tr = Called Start # body @ [Stopped] \<and> Stopped \<notin> set body"
  proof (cases "raises env Start")
    case True
    with a show ?thesis by (simp add: render_full_page_def)
  next
    case False
    with a obtain t where b: "render_body env [Called Start] = Some (res, t)" and t: "tr = t @ [Stopped]"
      by (cases "render_body env [Called Start]") (auto simp: render_full_page_def)
    from render_body_extends [OF b] obtain ext where "t = [Called Start] @ ext" "Stopped \<notin> set ext"
      by blast
    with t False show ?thesis by simp
  qed
next
  assume a: "fetch_rendered_html env = (res', tr')"
  show "if raises env Start then res' = Inl Start \<and> tr' = [Called Start]
       else \<exists>body. tr' = Called Start # body @ [Stopped] \<and> Stopped \<notin> set body"
  proof (cases "raises env Start")
    case True
    with a show ?thesis by (auto simp: fetch_rendered_html_def)
  next
    case False
    with a obtain t where b: "fetch_body env [Called Start] = (res', t)" and t: "tr' = t @ [Stopped]"
      by (cases "fetch_body env [Called Start]") (auto simp: fetch_rendered_html_def)
    from fetch_body_extends [OF b] obtain ext where "t = [Called Start] @ ext" "Stopped \<notin> set ext"
      by blast
    with t False show ?thesis by simp
  qed
next
  assume "\<exists>n. \<not> load_more env n"
  then show "\<exists>r t. render_full_page env = Some (r, t)" by (rule render_full_page_returns)
qed

lemma render_click_fails:
  "render_full_page click_fails =
     Some (Inl (Click 1),
       [Called Start, Called Launch, Called NewPage, Called Goto,
        Called (QuerySelector 0), Called (Click 0), Called (WaitForTimeout 0), Called (PressEnd 0),
        Called (QuerySelector 1), Called (Click 1), Stopped])"
proof -
  have "load_more_loop click_fails 0 [Called Start, Called Launch, Called NewPage, Called Goto] =
      Some (Some (Click 1),
       [Called Start, Called Launch, Called NewPage, Called Goto,
        Called (QuerySelector 0), Called (Click 0), Called (WaitForTimeout 0), Called (PressEnd 0),
        Called (QuerySelector 1), Called (Click 1)])"
    apply (subst load_more_loop.simps)
    apply (simp add: click_fails_def)
    apply (subst load_more_loop.simps)
    apply (simp add: click_fails_def)
    done
  then show ?thesis
    by (simp add: render_full_page_def render_body_def click_fails_def)
qed

lemma fetch_wait_fails:
  "fetch_rendered_html wait_fails =
     (Inl WaitForSelector,
      [Called Start, Called Launch, Called NewContext, Called NewPage, Called Goto,
       Called WaitForSelector, Printed ''Timeout waiting for car tiles.'', Stopped])"
  by (simp add: fetch_rendered_html_def fetch_body_def wait_fails_def)

text \<open>
  Two aborted runs. In neither is the explicit \<^verbatim>\<open>browser.close()\<close> reached: the
  session is released by the exit of the block alone.
\<close>

theorem session_released_witness:
  "render_full_page click_fails =
     Some (Inl (Click 1),
       [Called Start, Called Launch, Called NewPage, Called Goto,
        Called (QuerySelector 0), Called (Click 0), Called (WaitForTimeout 0), Called (PressEnd 0),
        Called (QuerySelector 1), Called (Click 1), Stopped]) \<and>
   (\<exists>body. [Called Start, Called Launch, Called NewPage, Called Goto,
        Called (QuerySelector 0), Called (Click 0), Called (WaitForTimeout 0), Called (PressEnd 0),
        Called (QuerySelector 1), Called (Click 1), Stopped] = Called Start # body @ [Stopped] \<and>
      Stopped \<notin> set body) \<and>
   fetch_rendered_html wait_fails =
     (Inl WaitForSelector,
      [Called Start, Called Launch, Called NewContext, Called NewPage, Called Goto,
       Called WaitForSelector, Printed ''Timeout waiting for car tiles.'', Stopped]) \<and>
   (\<exists>body. [Called Start, Called Launch, Called NewContext, Called NewPage, Called Goto,
       Called WaitForSelector, Printed ''Timeout waiting for car tiles.'', Stopped] =
       Called Start # body @ [Stopped] \<and> Stopped \<notin> set body) \<and>
   (\<exists>r t. render_full_page wait_fails = Some (r, t))"
proof -
  have a: "\<not> raises click_fails Start" "\<not> raises wait_fails Start"
    by (simp_all add: click_fails_def wait_fails_def)
  have b: "\<exists>n. \<not> load_more wait_fails n"
    by (simp add: wait_fails_def)
  from session_released [of click_fails "Inl (Click 1)"] session_released [of wait_fails]
    render_click_fails fetch_wait_fails a b
  show ?thesis by simp
qed

section \<open>Termination of the polling loop\<close>

text \<open>
  C5. When the lookup of the load-more button finds no match at some check, let the
  n-th check be the first such. Then the loop ends: it never makes more than these
  \<open>n + 1\<close> lookups, and when no call raises it leaves the loop at the n-th lookup,
  after exactly \<open>n\<close> rounds of click, wait and key press.
\<close>

theorem load_more_loop_exits:
  assumes "\<not> load_more env n" "\<forall>j<n. load_more env j"
  shows "\<exists>st tr. load_more_loop env 0 [] = Some (st, tr) \<and>
      lookups tr \<le> Suc n \<and>
      ((\<forall>k. \<not> raises env k) \<longrightarrow>
         st = None \<and> tr = concat (map round_calls [0..<n]) @ [Called (QuerySelector n)])"
  using load_more_loop_upto [OF assms, of 0 "[]"] by (simp add: lookups_def)

lemma two_rounds: "[0..<2] = [0, Suc 0]"
  by (simp add: upt_rec)

theorem load_more_loop_exits_witness:
  "load_more_loop two_clicks 0 [] =
     Some (None,
       [Called (QuerySelector 0), Called (Click 0), Called (WaitForTimeout 0), Called (PressEnd 0),
        Called (QuerySelector 1), Called (Click 1), Called (WaitForTimeout 1), Called (PressEnd 1),
        Called (QuerySelector 2)])"
proof -
  have a: "\<not> load_more two_clicks 2" "\<forall>j<2. load_more two_clicks j" "\<forall>k. \<not> raises two_clicks k"
    by (simp_all add: two_clicks_def)
  from load_more_loop_exits [OF a(1,2)] a(3) show ?thesis
    by (auto simp: two_rounds round_calls_def)
qed

end
